theory Spec2Isabelle
  imports Complex_Main "HOL-Library.Sublist"
begin

section \<open>Two Snake games (App.jsx): shared notions\<close>

text \<open>
  The source file holds two React components, both called \<open>SnakeGame\<close>. The first
  (lines 1-267, here variant A) always treats the wall as lethal and speeds up; the second
  (lines 268-509, here variant B) has a wall mode and a constant tick interval. Names of
  variant A carry no mark where the source name is unique, state fields carry the suffix
  \<open>A\<close> or \<open>B\<close>.

  A cell is the object \<open>{x, y}\<close>; it is modelled as the pair \<open>(x, y)\<close>, so \<open>fst\<close> reads
  \<open>.x\<close> and \<open>snd\<close> reads \<open>.y\<close>. All coordinates the game computes are small integers.

  Every callback (timer tick, key handler, button handler) runs to completion and React
  commits its state updates before the next callback runs, so a callback is a function
  from the committed state to the next committed state. A closure created at a render
  reads the state committed by that render.

  \<open>Math.random\<close> is an input: the function \<open>rnd\<close> gives the value of the \<open>i\<close>-th call made
  by one invocation of a food generator, a real number in \<open>[0, 1)\<close>.

  A call that never returns has the value \<open>None\<close>; a call that throws has the value
  \<open>Some (Inl e)\<close>; a call that returns the next state \<open>s'\<close> has the value \<open>Some (Inr s')\<close>.
\<close>

type_synonym cell = "int \<times> int"

datatype error = TypeError

type_synonym 'a result = "(error + 'a) option"

text \<open>\<open>{ x: head.x + dir.x, y: head.y + dir.y }\<close> (lines 75 and 318-321).\<close>

definition newHead_of :: "cell \<Rightarrow> cell \<Rightarrow> cell" where
  "newHead_of head dir = (fst head + fst dir, snd head + snd dir)"

text \<open>The wall test of both variants (lines 78-83 and 326).\<close>

definition hits_wall :: "int \<Rightarrow> cell \<Rightarrow> bool" where
  "hits_wall sz newHead \<longleftrightarrow>
     fst newHead < 0 \<or> fst newHead \<ge> sz \<or> snd newHead < 0 \<or> snd newHead \<ge> sz"

text \<open>\<open>cells.some((p) => p.x === c.x && p.y === c.y)\<close> (lines 90, 293 and 339).\<close>

definition some_eq :: "cell list \<Rightarrow> cell \<Rightarrow> bool" where
  "some_eq cells c \<longleftrightarrow> list_ex (\<lambda>p. fst p = fst c \<and> snd p = snd c) cells"

text \<open>One candidate of a food generator: two calls of \<open>Math.floor(Math.random() * size)\<close>,
  the \<open>i\<close>-th and the next one (lines 19-20 and 290-291); \<open>sz\<close> is the source's \<open>size\<close>.\<close>

definition draw :: "int \<Rightarrow> (nat \<Rightarrow> real) \<Rightarrow> nat \<Rightarrow> cell" where
  "draw sz rnd i = (\<lfloor>rnd i * of_int sz\<rfloor>, \<lfloor>rnd (i + 1) * of_int sz\<rfloor>)"

section \<open>Variant A\<close>

definition BOARD_SIZE :: int where
  "BOARD_SIZE = 20"

definition START_SNAKE :: "cell list" where
  "START_SNAKE = [(9, 10), (8, 10), (7, 10)]"

definition START_DIRECTION :: cell where
  "START_DIRECTION = (1, 0)"

definition INITIAL_SPEED :: int where
  "INITIAL_SPEED = 150"

text \<open>\<open>randomFood\<close> (lines 15-24): rejection sampling in a do-while loop. The set \<open>taken\<close>
  holds the keys \<open>"x,y"\<close> of the excluded cells, and two integer cells have the same key
  exactly when they are equal.\<close>

partial_function (option) randomFood :: "cell list \<Rightarrow> int \<Rightarrow> (nat \<Rightarrow> real) \<Rightarrow> nat \<Rightarrow> cell option"
where
  "randomFood excludeCells sz rnd i =
     (let c = draw sz rnd i
      in if c \<in> set excludeCells then randomFood excludeCells sz rnd (i + 2) else Some c)"

text \<open>The state cells of the component (lines 27-36). \<open>directionRef.current\<close> is assigned
  \<open>direction\<close> at every render (line 30) and \<open>START_DIRECTION\<close> together with
  \<open>setDirection(START_DIRECTION)\<close> (lines 116-117, 213-214), so between callbacks it
  equals \<open>direction\<close> and is the field \<open>directionA\<close>.\<close>

record stateA =
  snakeA :: "cell list"
  directionA :: cell
  foodA :: cell
  runningA :: bool
  speedA :: int
  scoreA :: int
  gameOverA :: bool

text \<open>The initial values of \<open>useState\<close> (lines 27-36).\<close>

definition initial_stateA :: "(nat \<Rightarrow> real) \<Rightarrow> stateA result" where
  "initial_stateA rnd =
     (case randomFood START_SNAKE BOARD_SIZE rnd 0 of
        None \<Rightarrow> None
      | Some f \<Rightarrow> Some (Inr \<lparr>snakeA = START_SNAKE, directionA = START_DIRECTION, foodA = f,
                            runningA = False, speedA = INITIAL_SPEED, scoreA = 0,
                            gameOverA = False\<rparr>))"

text \<open>The object \<open>map\<close> of \<open>handleKey\<close> (lines 42-51), on the values \<open>e.key\<close> takes.\<close>

definition mapA :: "string \<Rightarrow> cell option" where
  "mapA key =
     (if key = ''ArrowUp'' then Some (0, -1)
      else if key = ''ArrowDown'' then Some (0, 1)
      else if key = ''ArrowLeft'' then Some (-1, 0)
      else if key = ''ArrowRight'' then Some (1, 0)
      else if key = ''w'' then Some (0, -1)
      else if key = ''s'' then Some (0, 1)
      else if key = ''a'' then Some (-1, 0)
      else if key = ''d'' then Some (1, 0)
      else None)"

text \<open>\<open>handleKey\<close> (lines 39-59).\<close>

definition handleKey :: "string \<Rightarrow> stateA \<Rightarrow> stateA" where
  "handleKey key s =
     (case mapA key of
        None \<Rightarrow> s
      | Some newDir \<Rightarrow>
          (let cur = directionA s
           in if fst cur + fst newDir = 0 \<and> snd cur + snd newDir = 0 then s
              else s\<lparr>directionA := newDir\<rparr>))"

text \<open>The timer callback (lines 67-112). The timer exists only while \<open>running\<close> holds and
  \<open>gameOver\<close> does not (lines 68-69); without a timer nothing happens. \<open>prev[0]\<close> of an
  empty array is \<open>undefined\<close>, and reading \<open>head.x\<close> then throws a \<open>TypeError\<close>.\<close>

definition tick :: "(nat \<Rightarrow> real) \<Rightarrow> stateA \<Rightarrow> stateA result" where
  "tick rnd s =
     (if \<not> runningA s then Some (Inr s)
      else if gameOverA s then Some (Inr s)
      else
        (case snakeA s of
           [] \<Rightarrow> Some (Inl TypeError)
         | head # _ \<Rightarrow>
             (let prev = snakeA s;
                  dir = directionA s;
                  newHead = newHead_of head dir
              in if hits_wall BOARD_SIZE newHead
                 then Some (Inr (s\<lparr>gameOverA := True, runningA := False\<rparr>))
                 else if some_eq prev newHead
                 then Some (Inr (s\<lparr>gameOverA := True, runningA := False\<rparr>))
                 else
                   (let ate = (fst newHead = fst (foodA s) \<and> snd newHead = snd (foodA s));
                        newSnake = newHead # prev
                    in if \<not> ate then Some (Inr (s\<lparr>snakeA := butlast newSnake\<rparr>))
                       else
                         (case randomFood newSnake BOARD_SIZE rnd 0 of
                            None \<Rightarrow> None
                          | Some f \<Rightarrow>
                              Some (Inr (s\<lparr>snakeA := newSnake,
                                           scoreA := scoreA s + 1,
                                           speedA := max 40 (speedA s - 4),
                                           foodA := f\<rparr>)))))))"

text \<open>\<open>start\<close> (lines 114-123), \<open>pause\<close>, \<open>resume\<close>, \<open>restart\<close> (lines 125-135).\<close>

definition start :: "(nat \<Rightarrow> real) \<Rightarrow> stateA \<Rightarrow> stateA result" where
  "start rnd s =
     (case randomFood START_SNAKE BOARD_SIZE rnd 0 of
        None \<Rightarrow> None
      | Some f \<Rightarrow> Some (Inr (s\<lparr>snakeA := START_SNAKE, directionA := START_DIRECTION,
                               foodA := f, runningA := True, gameOverA := False,
                               scoreA := 0, speedA := INITIAL_SPEED\<rparr>)))"

definition pause :: "stateA \<Rightarrow> stateA" where
  "pause s = s\<lparr>runningA := False\<rparr>"

definition resume :: "stateA \<Rightarrow> stateA" where
  "resume s = (if \<not> gameOverA s then s\<lparr>runningA := True\<rparr> else s)"

definition restart :: "(nat \<Rightarrow> real) \<Rightarrow> stateA \<Rightarrow> stateA result" where
  "restart rnd s = start rnd s"

text \<open>The handlers written inline in the buttons Reset (lines 210-220), Faster (line 227)
  and Slower (line 233).\<close>

definition reset_click :: "(nat \<Rightarrow> real) \<Rightarrow> stateA \<Rightarrow> stateA result" where
  "reset_click rnd s =
     (case randomFood START_SNAKE BOARD_SIZE rnd 0 of
        None \<Rightarrow> None
      | Some f \<Rightarrow> Some (Inr (s\<lparr>snakeA := START_SNAKE, directionA := START_DIRECTION,
                               foodA := f, scoreA := 0, gameOverA := False,
                               runningA := False, speedA := INITIAL_SPEED\<rparr>)))"

definition faster_click :: "stateA \<Rightarrow> stateA" where
  "faster_click s = s\<lparr>speedA := max 40 (speedA s - 20)\<rparr>"

definition slower_click :: "stateA \<Rightarrow> stateA" where
  "slower_click s = s\<lparr>speedA := min 1000 (speedA s + 20)\<rparr>"

text \<open>The callbacks the browser can run, and a run of the component over a list of them.
  The buttons Start, Pause, Resume and Restart are rendered in some states only
  (lines 181-206); the events below are accepted in every state, which covers more runs
  than the page allows.\<close>

datatype eventA =
    Tick "nat \<Rightarrow> real"
  | KeyDown string
  | Start "nat \<Rightarrow> real"
  | Pause
  | Resume
  | Restart "nat \<Rightarrow> real"
  | Reset "nat \<Rightarrow> real"
  | Faster
  | Slower

fun stepA :: "eventA \<Rightarrow> stateA \<Rightarrow> stateA result" where
  "stepA (Tick rnd) s = tick rnd s"
| "stepA (KeyDown key) s = Some (Inr (handleKey key s))"
| "stepA (Start rnd) s = start rnd s"
| "stepA Pause s = Some (Inr (pause s))"
| "stepA Resume s = Some (Inr (resume s))"
| "stepA (Restart rnd) s = restart rnd s"
| "stepA (Reset rnd) s = reset_click rnd s"
| "stepA Faster s = Some (Inr (faster_click s))"
| "stepA Slower s = Some (Inr (slower_click s))"

fun runA :: "eventA list \<Rightarrow> stateA \<Rightarrow> stateA result" where
  "runA [] s = Some (Inr s)"
| "runA (e # es) s =
     (case stepA e s of
        None \<Rightarrow> None
      | Some (Inl err) \<Rightarrow> Some (Inl err)
      | Some (Inr s') \<Rightarrow> runA es s')"

section \<open>Variant B\<close>

definition GRID_SIZE :: int where
  "GRID_SIZE = 20"

definition INITIAL_SNAKE :: "cell list" where
  "INITIAL_SNAKE = [(10, 10)]"

definition INITIAL_DIRECTION :: cell where
  "INITIAL_DIRECTION = (1, 0)"

text \<open>\<open>wallMode\<close> is the string \<open>'wall'\<close> or \<open>'passthrough'\<close> (line 284).\<close>

datatype wall_mode = Wall | Passthrough

record stateB =
  snakeB :: "cell list"
  directionB :: cell
  foodB :: cell
  gameOverB :: bool
  scoreB :: int
  isPaused :: bool
  gameStarted :: bool
  wallMode :: wall_mode

text \<open>The initial values of \<open>useState\<close> (lines 277-284).\<close>

definition initial_stateB :: stateB where
  "initial_stateB =
     \<lparr>snakeB = INITIAL_SNAKE, directionB = INITIAL_DIRECTION, foodB = (15, 15),
      gameOverB = False, scoreB = 0, isPaused = False, gameStarted = False,
      wallMode = Wall\<rparr>"

text \<open>\<open>generateFood\<close> (lines 286-295). The callback is rebuilt when \<open>snake\<close> changes
  (line 295) and closes over the snake of the render that built it: its first argument.\<close>

partial_function (option) generateFood :: "cell list \<Rightarrow> (nat \<Rightarrow> real) \<Rightarrow> nat \<Rightarrow> cell option"
where
  "generateFood snake rnd i =
     (let newFood = draw GRID_SIZE rnd i
      in if some_eq snake newFood then generateFood snake rnd (i + 2) else Some newFood)"

text \<open>\<open>resetGame\<close> (lines 297-305) and \<open>toggleWallMode\<close> (lines 307-311).\<close>

definition resetGame :: "stateB \<Rightarrow> stateB" where
  "resetGame s =
     s\<lparr>snakeB := INITIAL_SNAKE, directionB := INITIAL_DIRECTION, foodB := (15, 15),
       gameOverB := False, scoreB := 0, isPaused := False, gameStarted := True\<rparr>"

definition toggleWallMode :: "stateB \<Rightarrow> stateB" where
  "toggleWallMode s =
     (if \<not> gameStarted s \<or> gameOverB s
      then s\<lparr>wallMode := (if wallMode s = Wall then Passthrough else Wall)\<rparr>
      else s)"

text \<open>The four assignments of the pass-through branch, in their order (lines 332-335).\<close>

definition wrap :: "cell \<Rightarrow> cell" where
  "wrap newHead =
     (let x1 = (if fst newHead < 0 then GRID_SIZE - 1 else fst newHead);
          x2 = (if x1 \<ge> GRID_SIZE then 0 else x1);
          y1 = (if snd newHead < 0 then GRID_SIZE - 1 else snd newHead);
          y2 = (if y1 \<ge> GRID_SIZE then 0 else y1)
      in (x2, y2))"

text \<open>\<open>moveSnake\<close> (lines 313-356), the timer callback (line 391). \<open>generateFood\<close> is the
  callback of the render that built this \<open>moveSnake\<close> (line 356), and that render's
  \<open>snake\<close> is the committed snake \<open>prevSnake\<close>. The function \<open>move_to\<close> is the part after
  the wall handling (lines 338-354), which both wall modes reach.\<close>

definition move_to :: "(nat \<Rightarrow> real) \<Rightarrow> stateB \<Rightarrow> cell \<Rightarrow> stateB result" where
  "move_to rnd s newHead =
     (let prevSnake = snakeB s
      in if some_eq prevSnake newHead then Some (Inr (s\<lparr>gameOverB := True\<rparr>))
         else
           (let newSnake = newHead # prevSnake
            in if fst newHead = fst (foodB s) \<and> snd newHead = snd (foodB s)
               then
                 (case generateFood prevSnake rnd 0 of
                    None \<Rightarrow> None
                  | Some f \<Rightarrow>
                      Some (Inr (s\<lparr>snakeB := newSnake, scoreB := scoreB s + 10, foodB := f\<rparr>)))
               else Some (Inr (s\<lparr>snakeB := butlast newSnake\<rparr>))))"

definition moveSnake :: "(nat \<Rightarrow> real) \<Rightarrow> stateB \<Rightarrow> stateB result" where
  "moveSnake rnd s =
     (if gameOverB s \<or> isPaused s \<or> \<not> gameStarted s then Some (Inr s)
      else
        (case snakeB s of
           [] \<Rightarrow> Some (Inl TypeError)
         | head # _ \<Rightarrow>
             (let newHead = newHead_of head (directionB s)
              in if wallMode s = Wall
                 then
                   (if hits_wall GRID_SIZE newHead then Some (Inr (s\<lparr>gameOverB := True\<rparr>))
                    else move_to rnd s newHead)
                 else move_to rnd s (wrap newHead))))"

text \<open>The function given to \<open>setDirection\<close> (lines 370-383).\<close>

definition turn :: "string \<Rightarrow> cell \<Rightarrow> cell" where
  "turn key prev =
     (if key = ''ArrowUp'' then (if snd prev \<noteq> 1 then (0, -1) else prev)
      else if key = ''ArrowDown'' then (if snd prev \<noteq> -1 then (0, 1) else prev)
      else if key = ''ArrowLeft'' then (if fst prev \<noteq> 1 then (-1, 0) else prev)
      else if key = ''ArrowRight'' then (if fst prev \<noteq> -1 then (1, 0) else prev)
      else prev)"

text \<open>\<open>handleKeyPress\<close> (lines 359-384).\<close>

definition handleKeyPress :: "string \<Rightarrow> stateB \<Rightarrow> stateB" where
  "handleKeyPress key s =
     (let s1 = (if \<not> gameStarted s \<and> prefix ''Arrow'' key then s\<lparr>gameStarted := True\<rparr> else s)
      in if key = '' '' then s1\<lparr>isPaused := \<not> isPaused s1\<rparr>
         else s1\<lparr>directionB := turn key (directionB s1)\<rparr>)"

datatype eventB =
    TickB "nat \<Rightarrow> real"
  | KeyPress string
  | ResetGame
  | ToggleWallMode

fun stepB :: "eventB \<Rightarrow> stateB \<Rightarrow> stateB result" where
  "stepB (TickB rnd) s = moveSnake rnd s"
| "stepB (KeyPress key) s = Some (Inr (handleKeyPress key s))"
| "stepB ResetGame s = Some (Inr (resetGame s))"
| "stepB ToggleWallMode s = Some (Inr (toggleWallMode s))"

fun runB :: "eventB list \<Rightarrow> stateB \<Rightarrow> stateB result" where
  "runB [] s = Some (Inr s)"
| "runB (e # es) s =
     (case stepB e s of
        None \<Rightarrow> None
      | Some (Inl err) \<Rightarrow> Some (Inl err)
      | Some (Inr s') \<Rightarrow> runB es s')"

text \<open>The status of the specification, read off the flags of variant B: the overlays of
  lines 466-495 show "Press Arrow Key to Start" while \<open>gameStarted\<close> is false, "Game Over!"
  while \<open>gameOver\<close> holds and "Paused" while \<open>isPaused && !gameOver && gameStarted\<close>.\<close>

datatype status = NotStarted | Running | Paused | GameOver

definition statusB :: "stateB \<Rightarrow> status" where
  "statusB s =
     (if gameOverB s then GameOver
      else if \<not> gameStarted s then NotStarted
      else if isPaused s then Paused
      else Running)"

section \<open>Notions the properties are stated with\<close>

text \<open>The candidate head of a tick: the head moved by the heading, and in variant B,
  in pass-through mode, wrapped.\<close>

definition candidateA :: "stateA \<Rightarrow> cell" where
  "candidateA s = newHead_of (hd (snakeA s)) (directionA s)"

definition candidateB :: "stateB \<Rightarrow> cell" where
  "candidateB s =
     (if wallMode s = Wall then newHead_of (hd (snakeB s)) (directionB s)
      else wrap (newHead_of (hd (snakeB s)) (directionB s)))"

text \<open>Variant A is running when the timer of lines 67-112 exists.\<close>

definition is_runningA :: "stateA \<Rightarrow> bool" where
  "is_runningA s \<longleftrightarrow> runningA s \<and> \<not> gameOverA s"

text \<open>\<open>b\<close> is the exact reverse of \<open>a\<close>: the components sum to zero on both axes.\<close>

definition reverse_of :: "cell \<Rightarrow> cell \<Rightarrow> bool" where
  "reverse_of a b \<longleftrightarrow> fst a + fst b = 0 \<and> snd a + snd b = 0"

text \<open>The heading an arrow key asks for in variant B: the value its case of the switch
  returns when it accepts the key (lines 372-379).\<close>

definition headingB :: "string \<Rightarrow> cell option" where
  "headingB key =
     (if key = ''ArrowUp'' then Some (0, -1)
      else if key = ''ArrowDown'' then Some (0, 1)
      else if key = ''ArrowLeft'' then Some (-1, 0)
      else if key = ''ArrowRight'' then Some (1, 0)
      else None)"

text \<open>The events that reinitialise the game: \<open>start\<close>, \<open>restart\<close> and the Reset button in
  variant A, \<open>resetGame\<close> in variant B.\<close>

fun is_restartA :: "eventA \<Rightarrow> bool" where
  "is_restartA (Start rnd) = True"
| "is_restartA (Restart rnd) = True"
| "is_restartA (Reset rnd) = True"
| "is_restartA e = False"

fun is_resetB :: "eventB \<Rightarrow> bool" where
  "is_resetB ResetGame = True"
| "is_resetB e = False"

text \<open>A random source is fair for a list of cells when some candidate it draws is not in
  the list; then rejection sampling over the list returns.\<close>

definition eventually_free :: "int \<Rightarrow> (nat \<Rightarrow> real) \<Rightarrow> cell list \<Rightarrow> bool" where
  "eventually_free sz rnd cells \<longleftrightarrow> (\<exists>k. draw sz rnd (2 * k) \<notin> set cells)"

text \<open>Every value of \<open>Math.random\<close> lies in \<open>[0, 1)\<close>.\<close>

definition unit_interval :: "(nat \<Rightarrow> real) \<Rightarrow> bool" where
  "unit_interval rnd \<longleftrightarrow> (\<forall>i. 0 \<le> rnd i \<and> rnd i < 1)"

text \<open>The bounds of the tick interval of variant A.\<close>

definition speed_ok :: "stateA \<Rightarrow> bool" where
  "speed_ok s \<longleftrightarrow> 40 \<le> speedA s \<and> speedA s \<le> 1000"

text \<open>The headings the ticks of a run apply, in order. A tick applies the heading of the
  state it starts from when it is taken while the game is running; otherwise it applies
  none.\<close>

definition appliedA :: "eventA \<Rightarrow> stateA \<Rightarrow> cell list" where
  "appliedA e s =
     (case e of Tick rnd \<Rightarrow> (if is_runningA s then [directionA s] else []) | _ \<Rightarrow> [])"

fun applied_headingsA :: "eventA list \<Rightarrow> stateA \<Rightarrow> cell list" where
  "applied_headingsA [] s = []"
| "applied_headingsA (e # es) s =
     appliedA e s @
     (case stepA e s of Some (Inr s') \<Rightarrow> applied_headingsA es s' | _ \<Rightarrow> [])"

definition appliedB :: "eventB \<Rightarrow> stateB \<Rightarrow> cell list" where
  "appliedB e s =
     (case e of TickB rnd \<Rightarrow> (if statusB s = Running then [directionB s] else []) | _ \<Rightarrow> [])"

fun applied_headingsB :: "eventB list \<Rightarrow> stateB \<Rightarrow> cell list" where
  "applied_headingsB [] s = []"
| "applied_headingsB (e # es) s =
     appliedB e s @
     (case stepB e s of Some (Inr s') \<Rightarrow> applied_headingsB es s' | _ \<Rightarrow> [])"

text \<open>Some heading of the list is the exact reverse of the one right before it.\<close>

fun reverses_in :: "cell list \<Rightarrow> bool" where
  "reverses_in (a # b # hs) \<longleftrightarrow> reverse_of a b \<or> reverses_in (b # hs)"
| "reverses_in hs \<longleftrightarrow> False"

text \<open>Random sources for the examples: \<open>always r\<close> returns \<open>r\<close> at every call, and
  \<open>first_then r r'\<close> returns \<open>r\<close> at its first call and \<open>r'\<close> afterwards.\<close>

definition always :: "real \<Rightarrow> nat \<Rightarrow> real" where
  "always r i = r"

definition first_then :: "real \<Rightarrow> real \<Rightarrow> nat \<Rightarrow> real" where
  "first_then r r' i = (if i = 0 then r else r')"

text \<open>A game of variant B: ArrowDown starts it, five ticks down, ArrowRight, four ticks
  right. It ends one step left of the first food at (15, 15), in \<open>before_first_food\<close>.\<close>

definition to_first_food :: "eventB list" where
  "to_first_food =
     [KeyPress ''ArrowDown'', TickB (always 0), TickB (always 0), TickB (always 0),
      TickB (always 0), TickB (always 0),
      KeyPress ''ArrowRight'', TickB (always 0), TickB (always 0), TickB (always 0),
      TickB (always 0)]"

definition before_first_food :: stateB where
  "before_first_food =
     \<lparr>snakeB = [(14, 15)], directionB = (1, 0), foodB = (15, 15), gameOverB = False,
      scoreB = 0, isPaused = False, gameStarted = True, wallMode = Wall\<rparr>"

definition after_first_food :: stateB where
  "after_first_food =
     \<lparr>snakeB = [(15, 15), (14, 15)], directionB = (1, 0), foodB = (15, 15),
      gameOverB = False, scoreB = 10, isPaused = False, gameStarted = True,
      wallMode = Wall\<rparr>"

text \<open>Two keys between two ticks, in both variants.\<close>

definition two_keys_A :: "eventA list" where
  "two_keys_A =
     [Start (always 0), Tick (always 0), KeyDown ''ArrowUp'', KeyDown ''ArrowLeft'',
      Tick (always 0)]"

definition two_keys_B :: "eventB list" where
  "two_keys_B =
     [KeyPress ''ArrowRight'', TickB (always 0), KeyPress ''ArrowUp'', KeyPress ''ArrowLeft'',
      TickB (always 0)]"

text \<open>The four headings the key handlers produce.\<close>

definition unit_heading :: "cell \<Rightarrow> bool" where
  "unit_heading d \<longleftrightarrow> d = (0, -1) \<or> d = (0, 1) \<or> d = (-1, 0) \<or> d = (1, 0)"

text \<open>What every state of a game of variant B satisfies: the snake has a head, all its
  cells are on the board, and the heading is one of the four.\<close>

definition well_formedB :: "stateB \<Rightarrow> bool" where
  "well_formedB s \<longleftrightarrow>
     snakeB s \<noteq> [] \<and> list_all (\<lambda>c. \<not> hits_wall GRID_SIZE c) (snakeB s)
     \<and> unit_heading (directionB s)"

text \<open>A game of variant B in pass-through mode: the snake eats three times in a row and
  runs to the right edge (\<open>to_the_edge\<close>, ending in \<open>at_right_edge\<close>); then it crosses the
  edge, turns down, left over the edge, up and right again (\<open>round_the_edge\<close>). It ends in
  \<open>tail_across_edge\<close>, the head at the right edge and the tail just across it.\<close>

definition to_the_edge :: "eventB list" where
  "to_the_edge =
     ToggleWallMode # to_first_food @
     [TickB (first_then (4 / 5) (3 / 4)), TickB (first_then (17 / 20) (3 / 4)),
      TickB (always 0), TickB (always 0), TickB (always 0)]"

definition at_right_edge :: stateB where
  "at_right_edge =
     \<lparr>snakeB = [(19, 15), (18, 15), (17, 15), (16, 15)], directionB = (1, 0),
      foodB = (0, 0), gameOverB = False, scoreB = 30, isPaused = False,
      gameStarted = True, wallMode = Passthrough\<rparr>"

definition round_the_edge :: "eventB list" where
  "round_the_edge =
     to_the_edge @
     [TickB (always 0),
      KeyPress ''ArrowDown'', TickB (always 0), TickB (always 0),
      KeyPress ''ArrowLeft'', TickB (always 0),
      KeyPress ''ArrowUp'', TickB (always 0),
      KeyPress ''ArrowRight'']"

definition tail_across_edge :: stateB where
  "tail_across_edge =
     \<lparr>snakeB = [(19, 16), (19, 17), (0, 17), (0, 16)], directionB = (1, 0),
      foodB = (0, 0), gameOverB = False, scoreB = 30, isPaused = False,
      gameStarted = True, wallMode = Passthrough\<rparr>"

text \<open>What every state of a game of variant A satisfies when the random values lie in
  \<open>[0, 1)\<close>: the snake has a head, and the food is on the board and not on the snake.\<close>

definition well_formedA :: "stateA \<Rightarrow> bool" where
  "well_formedA s \<longleftrightarrow>
     snakeA s \<noteq> [] \<and> foodA s \<notin> set (snakeA s) \<and> \<not> hits_wall BOARD_SIZE (foodA s)"

fun fair_eventA :: "eventA \<Rightarrow> bool" where
  "fair_eventA (Tick rnd) = unit_interval rnd"
| "fair_eventA (Start rnd) = unit_interval rnd"
| "fair_eventA (Restart rnd) = unit_interval rnd"
| "fair_eventA (Reset rnd) = unit_interval rnd"
| "fair_eventA e = True"

section \<open>Collisions\<close>

lemma some_eq_iff: "some_eq cells c \<longleftrightarrow> c \<in> set cells"
  by (auto simp: some_eq_def list_ex_iff prod_eq_iff)

lemma tick_self_collision:
  assumes "is_runningA s" and "snakeA s \<noteq> []" and "candidateA s \<in> set (snakeA s)"
  shows "tick rnd s = Some (Inr (s\<lparr>gameOverA := True, runningA := False\<rparr>))"
proof -
  obtain h rest where sn: "snakeA s = h # rest"
    using assms(2) by (cases "snakeA s") auto
  have "some_eq (snakeA s) (newHead_of h (directionA s))"
    using assms(3) sn by (simp add: some_eq_iff candidateA_def)
  then show ?thesis
    using assms(1) sn by (simp add: tick_def is_runningA_def Let_def)
qed

lemma move_to_self_collision:
  "c \<in> set (snakeB s) \<Longrightarrow> move_to rnd s c = Some (Inr (s\<lparr>gameOverB := True\<rparr>))"
  by (simp add: move_to_def some_eq_iff)

lemma moveSnake_self_collision:
  assumes "statusB s = Running" and "snakeB s \<noteq> []" and "candidateB s \<in> set (snakeB s)"
  shows "moveSnake rnd s = Some (Inr (s\<lparr>gameOverB := True\<rparr>))"
proof -
  obtain h rest where sn: "snakeB s = h # rest"
    using assms(2) by (cases "snakeB s") auto
  from assms(1) have run: "\<not> gameOverB s" "\<not> isPaused s" "gameStarted s"
    by (auto simp: statusB_def split: if_splits)
  show ?thesis
  proof (cases "wallMode s = Wall")
    case True
    with assms(3) sn have "newHead_of h (directionB s) \<in> set (snakeB s)"
      by (simp add: candidateB_def)
    with True run sn show ?thesis
      by (simp add: moveSnake_def Let_def move_to_self_collision)
  next
    case False
    with assms(3) sn have "wrap (newHead_of h (directionB s)) \<in> set (snakeB s)"
      by (simp add: candidateB_def)
    with False run sn show ?thesis
      by (simp add: moveSnake_def Let_def move_to_self_collision)
  qed
qed

text \<open>
  Claim C3. In a tick taken while the game is running, if the candidate head is a cell of
  the current snake, the tick ends the game and changes nothing else: snake, food and
  score are those of the state before. The test reads the snake before the tail is
  removed, so the tail cell counts: a head that moves onto the cell the tail would leave
  in this very tick ends the game as well. Variant A also clears \<open>running\<close>.
\<close>

theorem C3_self_collision:
  "(is_runningA s \<and> snakeA s \<noteq> [] \<and> candidateA s \<in> set (snakeA s)
      \<longrightarrow> tick rnd s = Some (Inr (s\<lparr>gameOverA := True, runningA := False\<rparr>)))
   \<and> (is_runningA s \<and> snakeA s \<noteq> [] \<and> candidateA s = last (snakeA s)
      \<longrightarrow> tick rnd s = Some (Inr (s\<lparr>gameOverA := True, runningA := False\<rparr>)))
   \<and> (statusB b = Running \<and> snakeB b \<noteq> [] \<and> candidateB b \<in> set (snakeB b)
      \<longrightarrow> moveSnake rnd b = Some (Inr (b\<lparr>gameOverB := True\<rparr>)))
   \<and> (statusB b = Running \<and> snakeB b \<noteq> [] \<and> candidateB b = last (snakeB b)
      \<longrightarrow> moveSnake rnd b = Some (Inr (b\<lparr>gameOverB := True\<rparr>)))"
  using tick_self_collision[of s rnd] moveSnake_self_collision[of b rnd]
    last_in_set[of "snakeA s"] last_in_set[of "snakeB b"]
  by metis

text \<open>Two snakes whose head turns onto their own tail cell, the second one across the
  edge of the board in pass-through mode.\<close>

theorem C3_witness:
  "(let s = \<lparr>snakeA = [(5, 5), (5, 6), (4, 6), (4, 5)], directionA = (-1, 0), foodA = (0, 0),
              runningA = True, speedA = 150, scoreA = 3, gameOverA = False\<rparr>;
        b = \<lparr>snakeB = [(19, 5), (19, 6), (0, 6), (0, 5)], directionB = (1, 0), foodB = (3, 3),
              gameOverB = False, scoreB = 30, isPaused = False, gameStarted = True,
              wallMode = Passthrough\<rparr>
    in is_runningA s \<and> snakeA s \<noteq> [] \<and> candidateA s = last (snakeA s)
       \<and> candidateA s \<in> set (snakeA s)
       \<and> tick (\<lambda>_. 0) s = Some (Inr (s\<lparr>gameOverA := True, runningA := False\<rparr>))
       \<and> statusB b = Running \<and> snakeB b \<noteq> [] \<and> candidateB b = last (snakeB b)
       \<and> candidateB b \<in> set (snakeB b)
       \<and> moveSnake (\<lambda>_. 0) b = Some (Inr (b\<lparr>gameOverB := True\<rparr>)))"
  using C3_self_collision[of
      "\<lparr>snakeA = [(5, 5), (5, 6), (4, 6), (4, 5)], directionA = (-1, 0), foodA = (0, 0),
              runningA = True, speedA = 150, scoreA = 3, gameOverA = False\<rparr>"
      "\<lambda>_. 0"
      "\<lparr>snakeB = [(19, 5), (19, 6), (0, 6), (0, 5)], directionB = (1, 0), foodB = (3, 3),
              gameOverB = False, scoreB = 30, isPaused = False, gameStarted = True,
              wallMode = Passthrough\<rparr>"]
  by (simp add: Let_def is_runningA_def candidateA_def candidateB_def newHead_of_def wrap_def
      GRID_SIZE_def statusB_def)

section \<open>Plain movement\<close>

lemma cell_eq_iff: "(fst c = fst d \<and> snd c = snd d) \<longleftrightarrow> c = d"
  by (auto simp: prod_eq_iff)

lemma tick_plain_move:
  assumes "is_runningA s" and "snakeA s \<noteq> []" and "\<not> hits_wall BOARD_SIZE (candidateA s)"
    and "candidateA s \<notin> set (snakeA s)" and "candidateA s \<noteq> foodA s"
  shows "tick rnd s = Some (Inr (s\<lparr>snakeA := candidateA s # butlast (snakeA s)\<rparr>))"
proof -
  obtain h rest where sn: "snakeA s = h # rest"
    using assms(2) by (cases "snakeA s") auto
  let ?c = "newHead_of h (directionA s)"
  have c: "candidateA s = ?c" by (simp add: candidateA_def sn)
  have "\<not> some_eq (snakeA s) ?c" using assms(4) c by (simp add: some_eq_iff)
  moreover have "?c \<noteq> foodA s" using assms(5) c by simp
  moreover have "\<not> hits_wall BOARD_SIZE ?c" using assms(3) c by simp
  ultimately show ?thesis
    using assms(1) sn c by (simp add: tick_def is_runningA_def Let_def cell_eq_iff)
qed

lemma move_to_plain:
  assumes "snakeB s \<noteq> []" and "c \<notin> set (snakeB s)" and "c \<noteq> foodB s"
  shows "move_to rnd s c = Some (Inr (s\<lparr>snakeB := c # butlast (snakeB s)\<rparr>))"
  using assms by (simp add: move_to_def some_eq_iff Let_def cell_eq_iff)

lemma moveSnake_plain_move:
  assumes "statusB s = Running" and "snakeB s \<noteq> []"
    and "wallMode s = Wall \<longrightarrow> \<not> hits_wall GRID_SIZE (candidateB s)"
    and "candidateB s \<notin> set (snakeB s)" and "candidateB s \<noteq> foodB s"
  shows "moveSnake rnd s = Some (Inr (s\<lparr>snakeB := candidateB s # butlast (snakeB s)\<rparr>))"
proof -
  obtain h rest where sn: "snakeB s = h # rest"
    using assms(2) by (cases "snakeB s") auto
  from assms(1) have run: "\<not> gameOverB s" "\<not> isPaused s" "gameStarted s"
    by (auto simp: statusB_def split: if_splits)
  have mv: "move_to rnd s (candidateB s)
      = Some (Inr (s\<lparr>snakeB := candidateB s # butlast (snakeB s)\<rparr>))"
    using assms(2,4,5) by (rule move_to_plain)
  show ?thesis
  proof (cases "wallMode s = Wall")
    case True
    then have c: "candidateB s = newHead_of h (directionB s)"
      by (simp add: candidateB_def sn)
    with assms(3) True have "\<not> hits_wall GRID_SIZE (newHead_of h (directionB s))" by simp
    with True run sn mv c show ?thesis
      by (simp add: moveSnake_def Let_def)
  next
    case False
    then have c: "candidateB s = wrap (newHead_of h (directionB s))"
      by (simp add: candidateB_def sn)
    with False run sn mv show ?thesis
      by (simp add: moveSnake_def Let_def)
  qed
qed

lemma shifted_body:
  assumes "Suc i < length xs"
  shows "(c # butlast xs) ! Suc i = xs ! i"
  using assms by (simp add: nth_butlast)

text \<open>
  Claim C5. In a tick taken while the game is running, with no wall collision, no
  self-collision and a candidate head that is not the food cell, the new snake is the
  candidate head followed by the old snake without its last cell. Every other field
  (score, speed, food, heading, the status flags) is as before. The length is unchanged,
  the new head is the old head moved one step along the heading (in variant B's
  pass-through mode, wrapped), and every other segment takes the cell of the segment
  before it.
\<close>

theorem C5_plain_move:
  "(is_runningA s \<and> snakeA s \<noteq> [] \<and> \<not> hits_wall BOARD_SIZE (candidateA s)
      \<and> candidateA s \<notin> set (snakeA s) \<and> candidateA s \<noteq> foodA s
     \<longrightarrow> tick rnd s = Some (Inr (s\<lparr>snakeA := candidateA s # butlast (snakeA s)\<rparr>))
       \<and> candidateA s = (fst (hd (snakeA s)) + fst (directionA s),
                          snd (hd (snakeA s)) + snd (directionA s))
       \<and> length (candidateA s # butlast (snakeA s)) = length (snakeA s)
       \<and> (\<forall>i. Suc i < length (snakeA s)
             \<longrightarrow> (candidateA s # butlast (snakeA s)) ! Suc i = snakeA s ! i))
   \<and> (statusB b = Running \<and> snakeB b \<noteq> []
      \<and> (wallMode b = Wall \<longrightarrow> \<not> hits_wall GRID_SIZE (candidateB b))
      \<and> candidateB b \<notin> set (snakeB b) \<and> candidateB b \<noteq> foodB b
     \<longrightarrow> moveSnake rnd b = Some (Inr (b\<lparr>snakeB := candidateB b # butlast (snakeB b)\<rparr>))
       \<and> (wallMode b = Wall
            \<longrightarrow> candidateB b = (fst (hd (snakeB b)) + fst (directionB b),
                                 snd (hd (snakeB b)) + snd (directionB b)))
       \<and> length (candidateB b # butlast (snakeB b)) = length (snakeB b)
       \<and> (\<forall>i. Suc i < length (snakeB b)
             \<longrightarrow> (candidateB b # butlast (snakeB b)) ! Suc i = snakeB b ! i))"
proof (intro conjI impI allI)
  assume "is_runningA s \<and> snakeA s \<noteq> [] \<and> \<not> hits_wall BOARD_SIZE (candidateA s)
      \<and> candidateA s \<notin> set (snakeA s) \<and> candidateA s \<noteq> foodA s"
  then show "tick rnd s = Some (Inr (s\<lparr>snakeA := candidateA s # butlast (snakeA s)\<rparr>))"
    by (simp add: tick_plain_move)
next
  show "candidateA s = (fst (hd (snakeA s)) + fst (directionA s),
                          snd (hd (snakeA s)) + snd (directionA s))"
    by (simp add: candidateA_def newHead_of_def)
next
  assume "is_runningA s \<and> snakeA s \<noteq> [] \<and> \<not> hits_wall BOARD_SIZE (candidateA s)
      \<and> candidateA s \<notin> set (snakeA s) \<and> candidateA s \<noteq> foodA s"
  then show "length (candidateA s # butlast (snakeA s)) = length (snakeA s)"
    by simp
next
  fix i assume "Suc i < length (snakeA s)"
  then show "(candidateA s # butlast (snakeA s)) ! Suc i = snakeA s ! i"
    by (rule shifted_body)
next
  assume "statusB b = Running \<and> snakeB b \<noteq> []
      \<and> (wallMode b = Wall \<longrightarrow> \<not> hits_wall GRID_SIZE (candidateB b))
      \<and> candidateB b \<notin> set (snakeB b) \<and> candidateB b \<noteq> foodB b"
  then show "moveSnake rnd b = Some (Inr (b\<lparr>snakeB := candidateB b # butlast (snakeB b)\<rparr>))"
    by (simp add: moveSnake_plain_move)
next
  assume "wallMode b = Wall"
  then show "candidateB b = (fst (hd (snakeB b)) + fst (directionB b),
                                 snd (hd (snakeB b)) + snd (directionB b))"
    by (simp add: candidateB_def newHead_of_def)
next
  assume "statusB b = Running \<and> snakeB b \<noteq> []
      \<and> (wallMode b = Wall \<longrightarrow> \<not> hits_wall GRID_SIZE (candidateB b))
      \<and> candidateB b \<notin> set (snakeB b) \<and> candidateB b \<noteq> foodB b"
  then show "length (candidateB b # butlast (snakeB b)) = length (snakeB b)"
    by simp
next
  fix i assume "Suc i < length (snakeB b)"
  then show "(candidateB b # butlast (snakeB b)) ! Suc i = snakeB b ! i"
    by (rule shifted_body)
qed

text \<open>The start snake of variant A turning up, a snake of variant B crossing the right
  edge in pass-through mode, and the first step of variant B in wall mode.\<close>

theorem C5_witness:
  "(let s = \<lparr>snakeA = [(9, 10), (8, 10), (7, 10)], directionA = (0, -1), foodA = (3, 3),
              runningA = True, speedA = 150, scoreA = 0, gameOverA = False\<rparr>;
        b = \<lparr>snakeB = [(19, 5), (18, 5)], directionB = (1, 0), foodB = (3, 3),
              gameOverB = False, scoreB = 10, isPaused = False, gameStarted = True,
              wallMode = Passthrough\<rparr>;
        b' = \<lparr>snakeB = [(10, 10)], directionB = (1, 0), foodB = (15, 15),
              gameOverB = False, scoreB = 0, isPaused = False, gameStarted = True,
              wallMode = Wall\<rparr>
    in is_runningA s \<and> snakeA s \<noteq> [] \<and> \<not> hits_wall BOARD_SIZE (candidateA s)
       \<and> candidateA s \<notin> set (snakeA s) \<and> candidateA s \<noteq> foodA s
       \<and> tick (\<lambda>_. 0) s = Some (Inr (s\<lparr>snakeA := [(9, 9), (9, 10), (8, 10)]\<rparr>))
       \<and> statusB b = Running \<and> snakeB b \<noteq> []
       \<and> candidateB b \<notin> set (snakeB b) \<and> candidateB b \<noteq> foodB b
       \<and> moveSnake (\<lambda>_. 0) b = Some (Inr (b\<lparr>snakeB := [(0, 5), (19, 5)]\<rparr>))
       \<and> statusB b' = Running \<and> snakeB b' \<noteq> [] \<and> wallMode b' = Wall
       \<and> \<not> hits_wall GRID_SIZE (candidateB b')
       \<and> candidateB b' \<notin> set (snakeB b') \<and> candidateB b' \<noteq> foodB b'
       \<and> moveSnake (\<lambda>_. 0) b' = Some (Inr (b'\<lparr>snakeB := [(11, 10)]\<rparr>)))"
  using C5_plain_move[of
      "\<lparr>snakeA = [(9, 10), (8, 10), (7, 10)], directionA = (0, -1), foodA = (3, 3),
              runningA = True, speedA = 150, scoreA = 0, gameOverA = False\<rparr>"
      "\<lambda>_. 0"
      "\<lparr>snakeB = [(19, 5), (18, 5)], directionB = (1, 0), foodB = (3, 3),
              gameOverB = False, scoreB = 10, isPaused = False, gameStarted = True,
              wallMode = Passthrough\<rparr>"]
    C5_plain_move[of _ "\<lambda>_. 0"
      "\<lparr>snakeB = [(10, 10)], directionB = (1, 0), foodB = (15, 15),
              gameOverB = False, scoreB = 0, isPaused = False, gameStarted = True,
              wallMode = Wall\<rparr>"]
  by (simp add: Let_def is_runningA_def candidateA_def candidateB_def newHead_of_def wrap_def
      GRID_SIZE_def BOARD_SIZE_def hits_wall_def statusB_def)

section \<open>The wall mode switch\<close>

text \<open>
  Claim C8. While the status is Running or Paused, \<open>toggleWallMode\<close> returns the state it
  was given. While the status is NotStarted or GameOver it switches the wall mode and
  nothing else. It changes the state in no other status.
\<close>

theorem C8_toggle_wall_mode:
  "(statusB s = Running \<or> statusB s = Paused \<longrightarrow> toggleWallMode s = s)
   \<and> (statusB s = NotStarted \<or> statusB s = GameOver
        \<longrightarrow> toggleWallMode s = s\<lparr>wallMode := (if wallMode s = Wall then Passthrough else Wall)\<rparr>
          \<and> wallMode (toggleWallMode s) \<noteq> wallMode s)
   \<and> (toggleWallMode s \<noteq> s \<longrightarrow> statusB s = NotStarted \<or> statusB s = GameOver)"
proof (cases "\<not> gameStarted s \<or> gameOverB s")
  case True
  then have "statusB s = NotStarted \<or> statusB s = GameOver"
    by (auto simp: statusB_def)
  moreover from True
  have "toggleWallMode s = s\<lparr>wallMode := (if wallMode s = Wall then Passthrough else Wall)\<rparr>"
    by (simp add: toggleWallMode_def)
  ultimately show ?thesis by auto
next
  case False
  then have "statusB s = Running \<or> statusB s = Paused"
    by (auto simp: statusB_def)
  moreover from False have "toggleWallMode s = s"
    by (simp add: toggleWallMode_def)
  ultimately show ?thesis by auto
qed

text \<open>One state for each of the four statuses.\<close>

theorem C8_witness:
  "statusB (initial_stateB\<lparr>gameStarted := True\<rparr>) = Running
   \<and> toggleWallMode (initial_stateB\<lparr>gameStarted := True\<rparr>) = initial_stateB\<lparr>gameStarted := True\<rparr>
   \<and> statusB (initial_stateB\<lparr>gameStarted := True, isPaused := True\<rparr>) = Paused
   \<and> toggleWallMode (initial_stateB\<lparr>gameStarted := True, isPaused := True\<rparr>)
       = initial_stateB\<lparr>gameStarted := True, isPaused := True\<rparr>
   \<and> statusB initial_stateB = NotStarted
   \<and> wallMode (toggleWallMode initial_stateB) = Passthrough
   \<and> statusB (initial_stateB\<lparr>gameStarted := True, gameOverB := True\<rparr>) = GameOver
   \<and> wallMode (toggleWallMode (initial_stateB\<lparr>gameStarted := True, gameOverB := True\<rparr>))
       = Passthrough"
  using C8_toggle_wall_mode[of "initial_stateB\<lparr>gameStarted := True\<rparr>"]
    C8_toggle_wall_mode[of "initial_stateB\<lparr>gameStarted := True, isPaused := True\<rparr>"]
    C8_toggle_wall_mode[of initial_stateB]
    C8_toggle_wall_mode[of "initial_stateB\<lparr>gameStarted := True, gameOverB := True\<rparr>"]
  by (simp add: statusB_def initial_stateB_def)

section \<open>The food generators\<close>

lemma randomFood_accept:
  "draw sz rnd i \<notin> set ex \<Longrightarrow> randomFood ex sz rnd i = Some (draw sz rnd i)"
  by (subst randomFood.simps) simp

lemma randomFood_reject:
  "draw sz rnd i \<in> set ex \<Longrightarrow> randomFood ex sz rnd i = randomFood ex sz rnd (i + 2)"
  by (subst randomFood.simps) simp

lemma randomFood_sound:
  assumes "randomFood ex sz rnd i = Some c"
  shows "c \<notin> set ex"
  by (rule randomFood.raw_induct[where P = "\<lambda>ex sz rnd i c. c \<notin> set ex", OF _ assms])
     (auto simp: Let_def split: if_splits)

lemma randomFood_drawn:
  assumes "randomFood ex sz rnd i = Some c"
  shows "\<exists>j. c = draw sz rnd j"
  by (rule randomFood.raw_induct[where P = "\<lambda>ex sz rnd i c. \<exists>j. c = draw sz rnd j", OF _ assms])
     (auto simp: Let_def split: if_splits, metis)

lemma randomFood_returns_from:
  "draw sz rnd (i + 2 * k) \<notin> set ex \<Longrightarrow> \<exists>c. randomFood ex sz rnd i = Some c"
proof (induction k arbitrary: i)
  case 0
  then show ?case by (simp add: randomFood_accept)
next
  case (Suc k)
  show ?case
  proof (cases "draw sz rnd i \<in> set ex")
    case True
    from Suc.prems have "draw sz rnd ((i + 2) + 2 * k) \<notin> set ex"
      by (simp add: algebra_simps)
    then have "\<exists>c. randomFood ex sz rnd (i + 2) = Some c" by (rule Suc.IH)
    with True show ?thesis by (simp add: randomFood_reject)
  next
    case False
    then show ?thesis by (simp add: randomFood_accept)
  qed
qed

lemma randomFood_returns:
  assumes "eventually_free sz rnd ex"
  shows "\<exists>c. randomFood ex sz rnd 0 = Some c"
proof -
  from assms obtain k where "draw sz rnd (0 + 2 * k) \<notin> set ex"
    by (auto simp: eventually_free_def)
  then show ?thesis by (rule randomFood_returns_from)
qed

lemma floor_in_range:
  fixes r :: real
  assumes "0 < sz" and "0 \<le> r" and "r < 1"
  shows "0 \<le> \<lfloor>r * of_int sz\<rfloor> \<and> \<lfloor>r * of_int sz\<rfloor> < sz"
proof -
  have "0 \<le> r * of_int sz" using assms by simp
  moreover have "r * of_int sz < of_int sz" using assms by simp
  ultimately show ?thesis by (simp add: floor_less_iff)
qed

lemma draw_on_board:
  assumes "0 < sz" and "unit_interval rnd"
  shows "\<not> hits_wall sz (draw sz rnd i)"
  using floor_in_range[OF assms(1), of "rnd i"] floor_in_range[OF assms(1), of "rnd (i + 1)"]
    assms(2)
  by (simp add: hits_wall_def draw_def unit_interval_def not_less not_le)

lemma randomFood_on_board:
  assumes "randomFood ex sz rnd i = Some c" and "0 < sz" and "unit_interval rnd"
  shows "\<not> hits_wall sz c"
  using randomFood_drawn[OF assms(1)] draw_on_board[OF assms(2,3)] by auto

lemma generateFood_sound:
  assumes "generateFood snake rnd i = Some c"
  shows "c \<notin> set snake"
  by (rule generateFood.raw_induct[where P = "\<lambda>snake rnd i c. c \<notin> set snake", OF _ assms])
     (auto simp: Let_def some_eq_iff split: if_splits)

lemma generateFood_accept:
  "draw GRID_SIZE rnd i \<notin> set snake \<Longrightarrow> generateFood snake rnd i = Some (draw GRID_SIZE rnd i)"
  by (subst generateFood.simps) (simp add: some_eq_iff)

section \<open>Reset and restart\<close>

lemma start_returns:
  assumes "eventually_free BOARD_SIZE rnd START_SNAKE"
  shows "\<exists>f. f \<notin> set START_SNAKE
    \<and> start rnd s = Some (Inr (s\<lparr>snakeA := START_SNAKE, directionA := START_DIRECTION,
          foodA := f, runningA := True, gameOverA := False, scoreA := 0,
          speedA := INITIAL_SPEED\<rparr>))
    \<and> reset_click rnd s = Some (Inr (s\<lparr>snakeA := START_SNAKE, directionA := START_DIRECTION,
          foodA := f, scoreA := 0, gameOverA := False, runningA := False,
          speedA := INITIAL_SPEED\<rparr>))
    \<and> (unit_interval rnd \<longrightarrow> \<not> hits_wall BOARD_SIZE f)"
proof -
  from randomFood_returns[OF assms]
  obtain f where f: "randomFood START_SNAKE BOARD_SIZE rnd 0 = Some f" by blast
  have "f \<notin> set START_SNAKE" using f by (rule randomFood_sound)
  moreover have "unit_interval rnd \<longrightarrow> \<not> hits_wall BOARD_SIZE f"
    using randomFood_on_board[OF f] by (simp add: BOARD_SIZE_def)
  ultimately show ?thesis using f by (intro exI[of _ f]) (simp add: start_def reset_click_def)
qed

text \<open>
  Claim C9. From every state, \<open>start\<close> and \<open>restart\<close> of variant A return a state with the
  start snake, the start heading, score 0, speed 150, the game running, and a food cell
  outside the start snake (on the board when the random values lie in \<open>[0, 1)\<close>); the Reset
  button returns the same but with the game not running and not over. They return as soon
  as the random source draws one cell outside the start snake. From every state,
  \<open>resetGame\<close> of variant B returns the initial snake and heading, score 0, status
  Running and the food cell (15, 15), which is on the board and not in the initial snake.
  The tick interval of variant B is the constant \<open>INITIAL_SPEED\<close> (line 391).
\<close>

theorem C9_reset_restart:
  "(eventually_free BOARD_SIZE rnd START_SNAKE \<longrightarrow>
      (\<exists>s1 s2 s3.
         start rnd s = Some (Inr s1) \<and> restart rnd s = Some (Inr s2)
         \<and> reset_click rnd s = Some (Inr s3)
         \<and> snakeA s1 = START_SNAKE \<and> directionA s1 = START_DIRECTION \<and> scoreA s1 = 0
         \<and> speedA s1 = INITIAL_SPEED \<and> is_runningA s1 \<and> foodA s1 \<notin> set START_SNAKE
         \<and> (unit_interval rnd \<longrightarrow> \<not> hits_wall BOARD_SIZE (foodA s1))
         \<and> s2 = s1
         \<and> snakeA s3 = START_SNAKE \<and> directionA s3 = START_DIRECTION \<and> scoreA s3 = 0
         \<and> speedA s3 = INITIAL_SPEED \<and> \<not> runningA s3 \<and> \<not> gameOverA s3
         \<and> foodA s3 \<notin> set START_SNAKE
         \<and> (unit_interval rnd \<longrightarrow> \<not> hits_wall BOARD_SIZE (foodA s3))))
   \<and> snakeB (resetGame b) = INITIAL_SNAKE \<and> directionB (resetGame b) = INITIAL_DIRECTION
   \<and> scoreB (resetGame b) = 0 \<and> statusB (resetGame b) = Running
   \<and> foodB (resetGame b) = (15, 15) \<and> foodB (resetGame b) \<notin> set INITIAL_SNAKE
   \<and> \<not> hits_wall GRID_SIZE (foodB (resetGame b))"
proof -
  have B: "snakeB (resetGame b) = INITIAL_SNAKE \<and> directionB (resetGame b) = INITIAL_DIRECTION
   \<and> scoreB (resetGame b) = 0 \<and> statusB (resetGame b) = Running
   \<and> foodB (resetGame b) = (15, 15) \<and> foodB (resetGame b) \<notin> set INITIAL_SNAKE
   \<and> \<not> hits_wall GRID_SIZE (foodB (resetGame b))"
    by (simp add: resetGame_def statusB_def INITIAL_SNAKE_def hits_wall_def GRID_SIZE_def)
  have A: "\<exists>s1 s2 s3.
         start rnd s = Some (Inr s1) \<and> restart rnd s = Some (Inr s2)
         \<and> reset_click rnd s = Some (Inr s3)
         \<and> snakeA s1 = START_SNAKE \<and> directionA s1 = START_DIRECTION \<and> scoreA s1 = 0
         \<and> speedA s1 = INITIAL_SPEED \<and> is_runningA s1 \<and> foodA s1 \<notin> set START_SNAKE
         \<and> (unit_interval rnd \<longrightarrow> \<not> hits_wall BOARD_SIZE (foodA s1))
         \<and> s2 = s1
         \<and> snakeA s3 = START_SNAKE \<and> directionA s3 = START_DIRECTION \<and> scoreA s3 = 0
         \<and> speedA s3 = INITIAL_SPEED \<and> \<not> runningA s3 \<and> \<not> gameOverA s3
         \<and> foodA s3 \<notin> set START_SNAKE
         \<and> (unit_interval rnd \<longrightarrow> \<not> hits_wall BOARD_SIZE (foodA s3))"
    if fair: "eventually_free BOARD_SIZE rnd START_SNAKE"
  proof -
    from start_returns[OF fair, of s] obtain f where
      f: "f \<notin> set START_SNAKE" "unit_interval rnd \<longrightarrow> \<not> hits_wall BOARD_SIZE f"
      and st: "start rnd s = Some (Inr (s\<lparr>snakeA := START_SNAKE, directionA := START_DIRECTION,
          foodA := f, runningA := True, gameOverA := False, scoreA := 0,
          speedA := INITIAL_SPEED\<rparr>))"
      and rs: "reset_click rnd s = Some (Inr (s\<lparr>snakeA := START_SNAKE,
          directionA := START_DIRECTION, foodA := f, scoreA := 0, gameOverA := False,
          runningA := False, speedA := INITIAL_SPEED\<rparr>))"
      by blast
    show ?thesis
      using f by (simp add: st rs restart_def is_runningA_def)
  qed
  from A B show ?thesis by blast
qed

text \<open>A finished game of variant A, started again and reset with a random source that
  always returns 0, and a finished game of variant B.\<close>

theorem C9_witness:
  "eventually_free BOARD_SIZE (\<lambda>_. 0) START_SNAKE
   \<and> unit_interval (\<lambda>_. 0)
   \<and> start (\<lambda>_. 0) \<lparr>snakeA = [(3, 3), (3, 4)], directionA = (0, -1), foodA = (5, 5),
         runningA = False, speedA = 90, scoreA = 7, gameOverA = True\<rparr>
       = Some (Inr \<lparr>snakeA = [(9, 10), (8, 10), (7, 10)], directionA = (1, 0), foodA = (0, 0),
         runningA = True, speedA = 150, scoreA = 0, gameOverA = False\<rparr>)
   \<and> reset_click (\<lambda>_. 0) \<lparr>snakeA = [(3, 3), (3, 4)], directionA = (0, -1), foodA = (5, 5),
         runningA = False, speedA = 90, scoreA = 7, gameOverA = True\<rparr>
       = Some (Inr \<lparr>snakeA = [(9, 10), (8, 10), (7, 10)], directionA = (1, 0), foodA = (0, 0),
         runningA = False, speedA = 150, scoreA = 0, gameOverA = False\<rparr>)
   \<and> resetGame (initial_stateB\<lparr>snakeB := [(0, 0)], scoreB := 40, gameOverB := True\<rparr>)
       = initial_stateB\<lparr>gameStarted := True\<rparr>"
  using C9_reset_restart[of "\<lambda>_. 0" "\<lparr>snakeA = [(3, 3), (3, 4)], directionA = (0, -1),
         foodA = (5, 5), runningA = False, speedA = 90, scoreA = 7, gameOverA = True\<rparr>"
         "initial_stateB\<lparr>snakeB := [(0, 0)], scoreB := 40, gameOverB := True\<rparr>"]
  by (simp add: eventually_free_def unit_interval_def draw_def START_SNAKE_def
      START_DIRECTION_def INITIAL_SPEED_def start_def reset_click_def randomFood_accept
      resetGame_def initial_stateB_def)

section \<open>The tick interval of variant A\<close>

lemma tick_idle: "\<not> is_runningA s \<Longrightarrow> tick rnd s = Some (Inr s)"
  by (auto simp: tick_def is_runningA_def)

lemma tick_empty: "is_runningA s \<Longrightarrow> snakeA s = [] \<Longrightarrow> tick rnd s = Some (Inl TypeError)"
  by (simp add: tick_def is_runningA_def)

lemma tick_running:
  assumes "is_runningA s" and "snakeA s \<noteq> []"
  shows "tick rnd s =
    (if hits_wall BOARD_SIZE (candidateA s) \<or> candidateA s \<in> set (snakeA s)
     then Some (Inr (s\<lparr>gameOverA := True, runningA := False\<rparr>))
     else if candidateA s \<noteq> foodA s
     then Some (Inr (s\<lparr>snakeA := candidateA s # butlast (snakeA s)\<rparr>))
     else
       (case randomFood (candidateA s # snakeA s) BOARD_SIZE rnd 0 of
          None \<Rightarrow> None
        | Some f \<Rightarrow> Some (Inr (s\<lparr>snakeA := candidateA s # snakeA s, scoreA := scoreA s + 1,
                                  speedA := max 40 (speedA s - 4), foodA := f\<rparr>))))"
proof -
  obtain h rest where sn: "snakeA s = h # rest"
    using assms(2) by (cases "snakeA s") auto
  show ?thesis
    using assms(1)
    by (simp add: tick_def is_runningA_def Let_def some_eq_iff cell_eq_iff candidateA_def sn
        split: option.splits)
qed

lemma tick_cases:
  assumes "tick rnd s = Some (Inr s')"
  shows "s' = s \<or> s' = s\<lparr>gameOverA := True, runningA := False\<rparr>
    \<or> (snakeA s \<noteq> [] \<and> candidateA s \<noteq> foodA s
        \<and> s' = s\<lparr>snakeA := candidateA s # butlast (snakeA s)\<rparr>)
    \<or> (\<exists>f. snakeA s \<noteq> [] \<and> candidateA s = foodA s \<and> f \<notin> set (candidateA s # snakeA s)
          \<and> randomFood (candidateA s # snakeA s) BOARD_SIZE rnd 0 = Some f
          \<and> s' = s\<lparr>snakeA := candidateA s # snakeA s, scoreA := scoreA s + 1,
                   speedA := max 40 (speedA s - 4), foodA := f\<rparr>)"
proof (cases "is_runningA s")
  case False
  with assms show ?thesis by (simp add: tick_idle)
next
  case True
  show ?thesis
  proof (cases "snakeA s = []")
    case True
    with \<open>is_runningA s\<close> assms show ?thesis by (simp add: tick_empty)
  next
    case False
    note run = tick_running[OF \<open>is_runningA s\<close> False, of rnd]
    show ?thesis
    proof (cases "hits_wall BOARD_SIZE (candidateA s) \<or> candidateA s \<in> set (snakeA s)")
      case True
      with assms run show ?thesis by auto
    next
      case nodead: False
      show ?thesis
      proof (cases "candidateA s = foodA s")
        case False
        with nodead assms run \<open>snakeA s \<noteq> []\<close> show ?thesis by auto
      next
        case True
        with nodead assms run obtain f where
          f: "randomFood (candidateA s # snakeA s) BOARD_SIZE rnd 0 = Some f"
          and s': "s' = s\<lparr>snakeA := candidateA s # snakeA s, scoreA := scoreA s + 1,
                   speedA := max 40 (speedA s - 4), foodA := f\<rparr>"
          by (auto split: option.splits)
        from f have "f \<notin> set (candidateA s # snakeA s)" by (rule randomFood_sound)
        with True s' f \<open>snakeA s \<noteq> []\<close> show ?thesis by blast
      qed
    qed
  qed
qed

lemma tick_speed:
  assumes "tick rnd s = Some (Inr s')"
  shows "if length (snakeA s') = length (snakeA s) + 1
         then speedA s' = max 40 (speedA s - 4) else speedA s' = speedA s"
  using tick_cases[OF assms] by auto

lemma stepA_speed_ok:
  assumes "stepA e s = Some (Inr s')" and "speed_ok s"
  shows "speed_ok s'"
proof (cases e)
  case (Tick rnd)
  with assms(1) have "tick rnd s = Some (Inr s')" by simp
  from tick_cases[OF this] assms(2) show ?thesis by (auto simp: speed_ok_def)
next
  case (KeyDown key)
  with assms show ?thesis
    by (auto simp: handleKey_def speed_ok_def Let_def split: option.splits if_splits)
next
  case (Start rnd)
  with assms(1) show ?thesis
    by (auto simp: start_def speed_ok_def INITIAL_SPEED_def split: option.splits)
next
  case Pause
  with assms show ?thesis by (auto simp: pause_def speed_ok_def)
next
  case Resume
  with assms show ?thesis by (auto simp: resume_def speed_ok_def)
next
  case (Restart rnd)
  with assms(1) show ?thesis
    by (auto simp: restart_def start_def speed_ok_def INITIAL_SPEED_def split: option.splits)
next
  case (Reset rnd)
  with assms(1) show ?thesis
    by (auto simp: reset_click_def speed_ok_def INITIAL_SPEED_def split: option.splits)
next
  case Faster
  with assms show ?thesis by (auto simp: faster_click_def speed_ok_def)
next
  case Slower
  with assms show ?thesis by (auto simp: slower_click_def speed_ok_def)
qed

lemma runA_speed_ok:
  "runA evs s = Some (Inr s') \<Longrightarrow> speed_ok s \<Longrightarrow> speed_ok s'"
proof (induction evs arbitrary: s)
  case Nil
  then show ?case by simp
next
  case (Cons e evs)
  from Cons.prems(1) obtain s1 where s1: "stepA e s = Some (Inr s1)"
    and rest: "runA evs s1 = Some (Inr s')"
    by (auto split: option.splits sum.splits)
  from s1 Cons.prems(2) have "speed_ok s1" by (rule stepA_speed_ok)
  with rest show ?case by (rule Cons.IH)
qed

lemma initial_stateA_speed:
  "initial_stateA rnd = Some (Inr s) \<Longrightarrow> speedA s = 150"
  by (auto simp: initial_stateA_def INITIAL_SPEED_def split: option.splits)

text \<open>
  Claim C10. In variant A the tick interval starts at 150; a tick that eats (the only
  tick that makes the snake longer) lowers it by 4 but not below 40, and every other tick
  leaves it alone; Faster lowers it by 20 but not below 40; Slower raises it by 20 but not
  above 1000; \<open>start\<close>, \<open>restart\<close> and Reset put it back to 150. Hence every state reached
  from the initial state by any list of events has its interval in \<open>[40, 1000]\<close>.
\<close>

theorem C10_speed_bounds:
  "(initial_stateA rnd = Some (Inr s0) \<longrightarrow> speedA s0 = 150)
   \<and> (tick rnd s = Some (Inr s') \<longrightarrow>
        (if length (snakeA s') = length (snakeA s) + 1
         then speedA s' = max 40 (speedA s - 4) else speedA s' = speedA s))
   \<and> speedA (faster_click s) = max 40 (speedA s - 20)
   \<and> speedA (slower_click s) = min 1000 (speedA s + 20)
   \<and> (start rnd s = Some (Inr s') \<or> restart rnd s = Some (Inr s')
        \<or> reset_click rnd s = Some (Inr s') \<longrightarrow> speedA s' = 150)
   \<and> (initial_stateA rnd = Some (Inr s0) \<and> runA evs s0 = Some (Inr s1) \<longrightarrow> speed_ok s1)"
proof (intro conjI impI)
  assume "initial_stateA rnd = Some (Inr s0)"
  then show "speedA s0 = 150" by (rule initial_stateA_speed)
next
  assume "tick rnd s = Some (Inr s')"
  then show "if length (snakeA s') = length (snakeA s) + 1
         then speedA s' = max 40 (speedA s - 4) else speedA s' = speedA s"
    by (rule tick_speed)
next
  show "speedA (faster_click s) = max 40 (speedA s - 20)" by (simp add: faster_click_def)
next
  show "speedA (slower_click s) = min 1000 (speedA s + 20)" by (simp add: slower_click_def)
next
  assume "start rnd s = Some (Inr s') \<or> restart rnd s = Some (Inr s')
        \<or> reset_click rnd s = Some (Inr s')"
  then show "speedA s' = 150"
    by (auto simp: start_def restart_def reset_click_def INITIAL_SPEED_def split: option.splits)
next
  assume a: "initial_stateA rnd = Some (Inr s0) \<and> runA evs s0 = Some (Inr s1)"
  then have "speed_ok s0" using initial_stateA_speed[of rnd s0] by (simp add: speed_ok_def)
  with a show "speed_ok s1" using runA_speed_ok by blast
qed


text \<open>A tick that eats at interval 42 and is clamped to 40, a start from that state, and a
  run of five events from the initial state.\<close>

theorem C10_witness:
  "(let s0 = \<lparr>snakeA = [(9, 10), (8, 10), (7, 10)], directionA = (1, 0), foodA = (10, 10),
               runningA = False, speedA = 150, scoreA = 0, gameOverA = False\<rparr>;
        s = \<lparr>snakeA = [(1, 0)], directionA = (-1, 0), foodA = (0, 0),
               runningA = True, speedA = 42, scoreA = 5, gameOverA = False\<rparr>;
        evs = [Start (\<lambda>_. 0), Faster, Tick (\<lambda>_. 0), Slower, Slower];
        s1 = \<lparr>snakeA = [(10, 10), (9, 10), (8, 10)], directionA = (1, 0), foodA = (0, 0),
               runningA = True, speedA = 170, scoreA = 0, gameOverA = False\<rparr>
    in initial_stateA (\<lambda>_. 1 / 2) = Some (Inr s0)
       \<and> tick (\<lambda>_. 1 / 2) s
           = Some (Inr (s\<lparr>snakeA := [(0, 0), (1, 0)], scoreA := 6, speedA := 40,
                           foodA := (10, 10)\<rparr>))
       \<and> start (\<lambda>_. 0) s
           = Some (Inr \<lparr>snakeA = [(9, 10), (8, 10), (7, 10)], directionA = (1, 0),
                        foodA = (0, 0), runningA = True, speedA = 150, scoreA = 0,
                        gameOverA = False\<rparr>)
       \<and> runA evs s0 = Some (Inr s1) \<and> speed_ok s1)"
  using
    C10_speed_bounds[of "\<lambda>_. 1 / 2"
      "\<lparr>snakeA = [(9, 10), (8, 10), (7, 10)], directionA = (1, 0), foodA = (10, 10),
               runningA = False, speedA = 150, scoreA = 0, gameOverA = False\<rparr>"
      "\<lparr>snakeA = [(1, 0)], directionA = (-1, 0), foodA = (0, 0),
               runningA = True, speedA = 42, scoreA = 5, gameOverA = False\<rparr>"
      "\<lparr>snakeA = [(0, 0), (1, 0)], directionA = (-1, 0), foodA = (10, 10),
               runningA = True, speedA = 40, scoreA = 6, gameOverA = False\<rparr>"
      "[Start (\<lambda>_. 0), Faster, Tick (\<lambda>_. 0), Slower, Slower]"
      "\<lparr>snakeA = [(10, 10), (9, 10), (8, 10)], directionA = (1, 0), foodA = (0, 0),
               runningA = True, speedA = 170, scoreA = 0, gameOverA = False\<rparr>"]
    C10_speed_bounds[of "\<lambda>_. 0" _
      "\<lparr>snakeA = [(1, 0)], directionA = (-1, 0), foodA = (0, 0),
               runningA = True, speedA = 42, scoreA = 5, gameOverA = False\<rparr>"
      "\<lparr>snakeA = [(9, 10), (8, 10), (7, 10)], directionA = (1, 0),
                        foodA = (0, 0), runningA = True, speedA = 150, scoreA = 0,
                        gameOverA = False\<rparr>"]
  by (simp add: Let_def initial_stateA_def tick_def start_def randomFood_accept draw_def
      START_SNAKE_def START_DIRECTION_def INITIAL_SPEED_def BOARD_SIZE_def hits_wall_def
      some_eq_def newHead_of_def faster_click_def slower_click_def speed_ok_def)

section \<open>The lethal wall\<close>

lemma tick_wall:
  assumes "is_runningA s" and "snakeA s \<noteq> []" and "hits_wall BOARD_SIZE (candidateA s)"
  shows "tick rnd s = Some (Inr (s\<lparr>gameOverA := True, runningA := False\<rparr>))"
  using assms by (simp add: tick_running)

lemma tick_game_over: "gameOverA s \<Longrightarrow> tick rnd s = Some (Inr s)"
  by (simp add: tick_idle is_runningA_def)

lemma stepA_game_over:
  assumes "gameOverA s" and "\<not> is_restartA e"
  shows "\<exists>s'. stepA e s = Some (Inr s') \<and> gameOverA s' \<and> snakeA s' = snakeA s
    \<and> foodA s' = foodA s \<and> scoreA s' = scoreA s"
proof (cases e)
  case (Tick rnd)
  with assms(1) show ?thesis by (simp add: tick_game_over)
next
  case (KeyDown key)
  with assms(1) show ?thesis
    by (simp add: handleKey_def Let_def split: option.splits)
next
  case Pause
  with assms(1) show ?thesis by (simp add: pause_def)
next
  case Resume
  with assms(1) show ?thesis by (simp add: resume_def)
next
  case Faster
  with assms(1) show ?thesis by (simp add: faster_click_def)
next
  case Slower
  with assms(1) show ?thesis by (simp add: slower_click_def)
qed (use assms(2) in simp_all)

lemma runA_game_over:
  assumes "gameOverA s" and "\<forall>e \<in> set evs. \<not> is_restartA e"
  shows "\<exists>s'. runA evs s = Some (Inr s') \<and> gameOverA s' \<and> snakeA s' = snakeA s
    \<and> foodA s' = foodA s \<and> scoreA s' = scoreA s"
  using assms
proof (induction evs arbitrary: s)
  case Nil
  then show ?case by simp
next
  case (Cons e evs)
  from Cons.prems have "\<not> is_restartA e" by simp
  with Cons.prems(1) obtain s1 where s1: "stepA e s = Some (Inr s1)" "gameOverA s1"
    "snakeA s1 = snakeA s" "foodA s1 = foodA s" "scoreA s1 = scoreA s"
    using stepA_game_over by blast
  from Cons.prems(2) have "\<forall>e \<in> set evs. \<not> is_restartA e" by simp
  from Cons.IH[OF s1(2) this] s1 show ?case by simp
qed

lemma moveSnake_wall:
  assumes "statusB s = Running" and "snakeB s \<noteq> []" and "wallMode s = Wall"
    and "hits_wall GRID_SIZE (candidateB s)"
  shows "moveSnake rnd s = Some (Inr (s\<lparr>gameOverB := True\<rparr>))"
proof -
  obtain h rest where sn: "snakeB s = h # rest"
    using assms(2) by (cases "snakeB s") auto
  from assms(1) have run: "\<not> gameOverB s" "\<not> isPaused s" "gameStarted s"
    by (auto simp: statusB_def split: if_splits)
  from assms(3,4) sn have "hits_wall GRID_SIZE (newHead_of h (directionB s))"
    by (simp add: candidateB_def)
  with run sn assms(3) show ?thesis by (simp add: moveSnake_def)
qed

lemma moveSnake_game_over: "gameOverB s \<Longrightarrow> moveSnake rnd s = Some (Inr s)"
  by (simp add: moveSnake_def)

lemma stepB_game_over:
  assumes "gameOverB s" and "\<not> is_resetB e"
  shows "\<exists>s'. stepB e s = Some (Inr s') \<and> gameOverB s' \<and> snakeB s' = snakeB s
    \<and> foodB s' = foodB s \<and> scoreB s' = scoreB s"
proof (cases e)
  case (TickB rnd)
  with assms(1) show ?thesis by (simp add: moveSnake_game_over)
next
  case (KeyPress key)
  with assms(1) show ?thesis by (simp add: handleKeyPress_def Let_def)
next
  case ResetGame
  with assms(2) show ?thesis by simp
next
  case ToggleWallMode
  with assms(1) show ?thesis by (simp add: toggleWallMode_def)
qed

lemma runB_game_over:
  assumes "gameOverB s" and "\<forall>e \<in> set evs. \<not> is_resetB e"
  shows "\<exists>s'. runB evs s = Some (Inr s') \<and> gameOverB s' \<and> snakeB s' = snakeB s
    \<and> foodB s' = foodB s \<and> scoreB s' = scoreB s"
  using assms
proof (induction evs arbitrary: s)
  case Nil
  then show ?case by simp
next
  case (Cons e evs)
  from Cons.prems have "\<not> is_resetB e" by simp
  with Cons.prems(1) obtain s1 where s1: "stepB e s = Some (Inr s1)" "gameOverB s1"
    "snakeB s1 = snakeB s" "foodB s1 = foodB s" "scoreB s1 = scoreB s"
    using stepB_game_over by blast
  from Cons.prems(2) have "\<forall>e \<in> set evs. \<not> is_resetB e" by simp
  from Cons.IH[OF s1(2) this] s1 show ?case by simp
qed

text \<open>
  Claim C4. With the lethal wall (always in variant A, wall mode in variant B), a tick
  taken while the game is running whose candidate head is off the board ends the game
  and changes nothing else: snake, food and score stay. After it, over any list of events
  without a restart or reset, the game stays over with the same snake, food and score,
  and every tick returns the state it was given.
\<close>

theorem C4_lethal_wall:
  "(is_runningA s \<and> snakeA s \<noteq> [] \<and> hits_wall BOARD_SIZE (candidateA s)
      \<and> (\<forall>e \<in> set evs. \<not> is_restartA e)
      \<longrightarrow> tick rnd s = Some (Inr (s\<lparr>gameOverA := True, runningA := False\<rparr>))
        \<and> (\<exists>s'. runA evs (s\<lparr>gameOverA := True, runningA := False\<rparr>) = Some (Inr s')
              \<and> gameOverA s' \<and> snakeA s' = snakeA s \<and> foodA s' = foodA s
              \<and> scoreA s' = scoreA s \<and> tick rnd' s' = Some (Inr s')))
   \<and> (statusB b = Running \<and> snakeB b \<noteq> [] \<and> wallMode b = Wall
        \<and> hits_wall GRID_SIZE (candidateB b) \<and> (\<forall>e \<in> set evsB. \<not> is_resetB e)
      \<longrightarrow> moveSnake rnd b = Some (Inr (b\<lparr>gameOverB := True\<rparr>))
        \<and> (\<exists>b'. runB evsB (b\<lparr>gameOverB := True\<rparr>) = Some (Inr b')
              \<and> gameOverB b' \<and> snakeB b' = snakeB b \<and> foodB b' = foodB b
              \<and> scoreB b' = scoreB b \<and> moveSnake rnd' b' = Some (Inr b')))"
proof (intro conjI impI)
  assume a: "is_runningA s \<and> snakeA s \<noteq> [] \<and> hits_wall BOARD_SIZE (candidateA s)
      \<and> (\<forall>e \<in> set evs. \<not> is_restartA e)"
  then show "tick rnd s = Some (Inr (s\<lparr>gameOverA := True, runningA := False\<rparr>))"
    by (simp add: tick_wall)
  let ?s1 = "s\<lparr>gameOverA := True, runningA := False\<rparr>"
  have "gameOverA ?s1" by simp
  with a obtain s' where s': "runA evs ?s1 = Some (Inr s')" "gameOverA s'"
    "snakeA s' = snakeA ?s1" "foodA s' = foodA ?s1" "scoreA s' = scoreA ?s1"
    using runA_game_over[of ?s1 evs] by blast
  from s'(2) have "tick rnd' s' = Some (Inr s')" by (rule tick_game_over)
  with s' show "\<exists>s'. runA evs ?s1 = Some (Inr s') \<and> gameOverA s' \<and> snakeA s' = snakeA s
              \<and> foodA s' = foodA s \<and> scoreA s' = scoreA s \<and> tick rnd' s' = Some (Inr s')"
    by auto
next
  assume a: "statusB b = Running \<and> snakeB b \<noteq> [] \<and> wallMode b = Wall
        \<and> hits_wall GRID_SIZE (candidateB b) \<and> (\<forall>e \<in> set evsB. \<not> is_resetB e)"
  then show "moveSnake rnd b = Some (Inr (b\<lparr>gameOverB := True\<rparr>))"
    by (simp add: moveSnake_wall)
  let ?b1 = "b\<lparr>gameOverB := True\<rparr>"
  have "gameOverB ?b1" by simp
  with a obtain b' where b': "runB evsB ?b1 = Some (Inr b')" "gameOverB b'"
    "snakeB b' = snakeB ?b1" "foodB b' = foodB ?b1" "scoreB b' = scoreB ?b1"
    using runB_game_over[of ?b1 evsB] by blast
  from b'(2) have "moveSnake rnd' b' = Some (Inr b')" by (rule moveSnake_game_over)
  with b' show "\<exists>b'. runB evsB ?b1 = Some (Inr b') \<and> gameOverB b' \<and> snakeB b' = snakeB b
              \<and> foodB b' = foodB b \<and> scoreB b' = scoreB b
              \<and> moveSnake rnd' b' = Some (Inr b')"
    by auto
qed

text \<open>A snake of variant A at the right edge heading right, a snake of variant B at the
  top edge heading up, each followed by keys, buttons and ticks.\<close>

theorem C4_witness:
  "(let s = \<lparr>snakeA = [(19, 10), (18, 10), (17, 10)], directionA = (1, 0), foodA = (3, 3),
              runningA = True, speedA = 150, scoreA = 2, gameOverA = False\<rparr>;
        evs = [Tick (\<lambda>_. 0), KeyDown ''ArrowUp'', Tick (\<lambda>_. 0), Faster, Resume, Pause,
               Tick (\<lambda>_. 0)];
        b = \<lparr>snakeB = [(4, 0), (4, 1)], directionB = (0, -1), foodB = (15, 15),
              gameOverB = False, scoreB = 10, isPaused = False, gameStarted = True,
              wallMode = Wall\<rparr>;
        evsB = [TickB (\<lambda>_. 0), KeyPress ''ArrowLeft'', ToggleWallMode, TickB (\<lambda>_. 0),
                KeyPress '' '', TickB (\<lambda>_. 0)]
    in is_runningA s \<and> snakeA s \<noteq> [] \<and> hits_wall BOARD_SIZE (candidateA s)
       \<and> (\<forall>e \<in> set evs. \<not> is_restartA e)
       \<and> tick (\<lambda>_. 0) s = Some (Inr (s\<lparr>gameOverA := True, runningA := False\<rparr>))
       \<and> runA evs (s\<lparr>gameOverA := True, runningA := False\<rparr>)
           = Some (Inr (s\<lparr>gameOverA := True, runningA := False, directionA := (0, -1),
                           speedA := 130\<rparr>))
       \<and> statusB b = Running \<and> snakeB b \<noteq> [] \<and> wallMode b = Wall
       \<and> hits_wall GRID_SIZE (candidateB b) \<and> (\<forall>e \<in> set evsB. \<not> is_resetB e)
       \<and> moveSnake (\<lambda>_. 0) b = Some (Inr (b\<lparr>gameOverB := True\<rparr>))
       \<and> runB evsB (b\<lparr>gameOverB := True\<rparr>)
           = Some (Inr (b\<lparr>gameOverB := True, directionB := (-1, 0), wallMode := Passthrough,
                           isPaused := True\<rparr>)))"
  using C4_lethal_wall[of
      "\<lparr>snakeA = [(19, 10), (18, 10), (17, 10)], directionA = (1, 0), foodA = (3, 3),
              runningA = True, speedA = 150, scoreA = 2, gameOverA = False\<rparr>"
      "[Tick (\<lambda>_. 0), KeyDown ''ArrowUp'', Tick (\<lambda>_. 0), Faster, Resume, Pause,
               Tick (\<lambda>_. 0)]"
      "\<lambda>_. 0" "\<lambda>_. 0"
      "\<lparr>snakeB = [(4, 0), (4, 1)], directionB = (0, -1), foodB = (15, 15),
              gameOverB = False, scoreB = 10, isPaused = False, gameStarted = True,
              wallMode = Wall\<rparr>"
      "[TickB (\<lambda>_. 0), KeyPress ''ArrowLeft'', ToggleWallMode, TickB (\<lambda>_. 0),
                KeyPress '' '', TickB (\<lambda>_. 0)]"]
  by (simp add: Let_def is_runningA_def candidateA_def candidateB_def newHead_of_def
      hits_wall_def BOARD_SIZE_def GRID_SIZE_def statusB_def tick_def moveSnake_def
      handleKey_def mapA_def faster_click_def resume_def pause_def handleKeyPress_def
      turn_def toggleWallMode_def)

section \<open>Keys that ask for the reverse heading\<close>

lemma handleKey_reverse:
  assumes "mapA key = Some d" and "reverse_of (directionA s) d"
  shows "handleKey key s = s"
  using assms by (simp add: handleKey_def reverse_of_def)

lemma headingB_arrow: "headingB key = Some d \<Longrightarrow> prefix ''Arrow'' key"
  by (auto simp: headingB_def split: if_splits)

lemma headingB_not_space: "headingB key = Some d \<Longrightarrow> key \<noteq> '' ''"
  by (auto simp: headingB_def split: if_splits)

lemma turn_reverse:
  assumes "headingB key = Some d" and "reverse_of prev d"
  shows "turn key prev = prev"
  using assms by (auto simp: headingB_def turn_def reverse_of_def split: if_splits)

lemma handleKeyPress_reverse:
  assumes "headingB key = Some d" and "reverse_of (directionB s) d"
  shows "handleKeyPress key s = (if gameStarted s then s else s\<lparr>gameStarted := True\<rparr>)"
  using headingB_arrow[OF assms(1)] headingB_not_space[OF assms(1)] turn_reverse[OF assms]
  by (simp add: handleKeyPress_def)

text \<open>
  Claim C7 says that a key asking for the exact reverse of the current heading changes
  no part of the state. In variant B this fails before the game has started: the initial
  heading is (1, 0), and ArrowLeft, which asks for (-1, 0), starts the game (lines 360-362
  run before the heading is looked at).
\<close>

theorem C7_counterexample:
  "headingB ''ArrowLeft'' = Some (-1, 0)
   \<and> reverse_of (directionB initial_stateB) (-1, 0)
   \<and> handleKeyPress ''ArrowLeft'' initial_stateB \<noteq> initial_stateB
   \<and> statusB initial_stateB = NotStarted
   \<and> statusB (handleKeyPress ''ArrowLeft'' initial_stateB) = Running"
  by (simp add: headingB_def reverse_of_def initial_stateB_def INITIAL_DIRECTION_def
      handleKeyPress_def turn_def statusB_def)

text \<open>
  Claim C7, amended. A key whose heading is the exact reverse of the current heading
  leaves the heading as it is and raises no error. In variant A the whole state is
  unchanged. In variant B the whole state is unchanged once the game has started; before
  that the key sets \<open>gameStarted\<close>, as every arrow key does, and changes nothing else.
\<close>

theorem C7_reverse_key_ignored:
  "(mapA key = Some d \<and> reverse_of (directionA s) d \<longrightarrow> handleKey key s = s)
   \<and> (headingB key = Some d \<and> reverse_of (directionB b) d
        \<longrightarrow> directionB (handleKeyPress key b) = directionB b
          \<and> handleKeyPress key b = (if gameStarted b then b else b\<lparr>gameStarted := True\<rparr>))"
  using handleKey_reverse[of key d s] handleKeyPress_reverse[of key d b] by simp

text \<open>ArrowLeft against the heading (1, 0) in variant A and in the initial state of
  variant B, ArrowUp against the heading (0, 1) in a started game of variant B.\<close>

theorem C7_witness:
  "(let s = \<lparr>snakeA = [(9, 10), (8, 10), (7, 10)], directionA = (1, 0), foodA = (3, 3),
              runningA = True, speedA = 150, scoreA = 0, gameOverA = False\<rparr>;
        b = initial_stateB\<lparr>gameStarted := True, directionB := (0, 1)\<rparr>
    in mapA ''ArrowLeft'' = Some (-1, 0) \<and> reverse_of (directionA s) (-1, 0)
       \<and> handleKey ''ArrowLeft'' s = s
       \<and> headingB ''ArrowUp'' = Some (0, -1) \<and> reverse_of (directionB b) (0, -1)
       \<and> handleKeyPress ''ArrowUp'' b = b
       \<and> headingB ''ArrowLeft'' = Some (-1, 0)
       \<and> reverse_of (directionB initial_stateB) (-1, 0)
       \<and> handleKeyPress ''ArrowLeft'' initial_stateB = initial_stateB\<lparr>gameStarted := True\<rparr>)"
  using C7_reverse_key_ignored[of "''ArrowLeft''" "(-1, 0)"
      "\<lparr>snakeA = [(9, 10), (8, 10), (7, 10)], directionA = (1, 0), foodA = (3, 3),
              runningA = True, speedA = 150, scoreA = 0, gameOverA = False\<rparr>"
      initial_stateB]
    C7_reverse_key_ignored[of "''ArrowUp''" "(0, -1)" _
      "initial_stateB\<lparr>gameStarted := True, directionB := (0, 1)\<rparr>"]
  by (simp add: Let_def mapA_def headingB_def reverse_of_def initial_stateB_def
      INITIAL_DIRECTION_def)

section \<open>Eating\<close>

lemma generateFood_reject:
  "draw GRID_SIZE rnd i \<in> set snake \<Longrightarrow> generateFood snake rnd i = generateFood snake rnd (i + 2)"
  by (subst generateFood.simps) (simp add: some_eq_iff)

lemma generateFood_returns_from:
  "draw GRID_SIZE rnd (i + 2 * k) \<notin> set snake \<Longrightarrow> \<exists>c. generateFood snake rnd i = Some c"
proof (induction k arbitrary: i)
  case 0
  then show ?case by (simp add: generateFood_accept)
next
  case (Suc k)
  show ?case
  proof (cases "draw GRID_SIZE rnd i \<in> set snake")
    case True
    from Suc.prems have "draw GRID_SIZE rnd ((i + 2) + 2 * k) \<notin> set snake"
      by (simp add: algebra_simps)
    then have "\<exists>c. generateFood snake rnd (i + 2) = Some c" by (rule Suc.IH)
    with True show ?thesis by (simp add: generateFood_reject)
  next
    case False
    then show ?thesis by (simp add: generateFood_accept)
  qed
qed

lemma generateFood_returns:
  assumes "eventually_free GRID_SIZE rnd snake"
  shows "\<exists>c. generateFood snake rnd 0 = Some c"
proof -
  from assms obtain k where "draw GRID_SIZE rnd (0 + 2 * k) \<notin> set snake"
    by (auto simp: eventually_free_def)
  then show ?thesis by (rule generateFood_returns_from)
qed

lemma tick_eats:
  assumes "is_runningA s" and "snakeA s \<noteq> []" and "candidateA s = foodA s"
    and "\<not> hits_wall BOARD_SIZE (candidateA s)" and "candidateA s \<notin> set (snakeA s)"
    and "eventually_free BOARD_SIZE rnd (candidateA s # snakeA s)"
  shows "\<exists>f. tick rnd s = Some (Inr (s\<lparr>snakeA := candidateA s # snakeA s,
              scoreA := scoreA s + 1, speedA := max 40 (speedA s - 4), foodA := f\<rparr>))
            \<and> f \<notin> set (candidateA s # snakeA s)"
proof -
  from randomFood_returns[OF assms(6)] obtain f
    where f: "randomFood (candidateA s # snakeA s) BOARD_SIZE rnd 0 = Some f" by blast
  then have "f \<notin> set (candidateA s # snakeA s)" by (rule randomFood_sound)
  moreover have "tick rnd s = Some (Inr (s\<lparr>snakeA := candidateA s # snakeA s,
              scoreA := scoreA s + 1, speedA := max 40 (speedA s - 4), foodA := f\<rparr>))"
    using assms(3,4,5) f by (simp add: tick_running[OF assms(1,2)])
  ultimately show ?thesis by blast
qed

lemma move_to_eats:
  assumes "c = foodB s" and "c \<notin> set (snakeB s)" and "eventually_free GRID_SIZE rnd (snakeB s)"
  shows "\<exists>f. move_to rnd s c = Some (Inr (s\<lparr>snakeB := c # snakeB s,
              scoreB := scoreB s + 10, foodB := f\<rparr>))
            \<and> f \<notin> set (snakeB s)"
proof -
  from generateFood_returns[OF assms(3)] obtain f
    where f: "generateFood (snakeB s) rnd 0 = Some f" by blast
  then have "f \<notin> set (snakeB s)" by (rule generateFood_sound)
  moreover have "move_to rnd s c = Some (Inr (s\<lparr>snakeB := c # snakeB s,
              scoreB := scoreB s + 10, foodB := f\<rparr>))"
    using assms(1,2) f by (simp add: move_to_def some_eq_iff)
  ultimately show ?thesis by blast
qed

subsection \<open>Eating in a game of variant A\<close>

lemma tick_keeps_well_formed:
  assumes "tick rnd s = Some (Inr s')" and "unit_interval rnd" and "well_formedA s"
  shows "well_formedA s'"
proof -
  from tick_cases[OF assms(1)]
  consider "s' = s" | "s' = s\<lparr>gameOverA := True, runningA := False\<rparr>"
    | "candidateA s \<noteq> foodA s" "s' = s\<lparr>snakeA := candidateA s # butlast (snakeA s)\<rparr>"
    | f where "f \<notin> set (candidateA s # snakeA s)"
        "randomFood (candidateA s # snakeA s) BOARD_SIZE rnd 0 = Some f"
        "s' = s\<lparr>snakeA := candidateA s # snakeA s, scoreA := scoreA s + 1,
                 speedA := max 40 (speedA s - 4), foodA := f\<rparr>"
    by blast
  then show ?thesis
  proof cases
    case 1
    with assms(3) show ?thesis by simp
  next
    case 2
    with assms(3) show ?thesis by (simp add: well_formedA_def)
  next
    case 3
    from assms(3) have "foodA s \<notin> set (butlast (snakeA s))"
      by (auto simp: well_formedA_def dest: in_set_butlastD)
    with 3 assms(3) show ?thesis by (auto simp: well_formedA_def)
  next
    case 4
    from randomFood_on_board[OF 4(2) _ assms(2)] have "\<not> hits_wall BOARD_SIZE f"
      by (simp add: BOARD_SIZE_def)
    with 4 show ?thesis by (simp add: well_formedA_def)
  qed
qed

lemma fresh_food_well_formed:
  assumes "randomFood START_SNAKE BOARD_SIZE rnd 0 = Some f" and "unit_interval rnd"
  shows "f \<notin> set START_SNAKE \<and> \<not> hits_wall BOARD_SIZE f"
  using randomFood_sound[OF assms(1)] randomFood_on_board[OF assms(1) _ assms(2)]
  by (simp add: BOARD_SIZE_def)

lemma stepA_keeps_well_formed:
  assumes "stepA e s = Some (Inr s')" and "fair_eventA e" and "well_formedA s"
  shows "well_formedA s'"
proof (cases e)
  case (Tick rnd)
  with assms show ?thesis by (simp add: tick_keeps_well_formed)
next
  case (KeyDown key)
  with assms show ?thesis
    by (auto simp: handleKey_def well_formedA_def Let_def split: option.splits if_splits)
next
  case (Start rnd)
  with assms(1,2) show ?thesis
    using fresh_food_well_formed[of rnd]
    by (auto simp: start_def well_formedA_def START_SNAKE_def split: option.splits)
next
  case Pause
  with assms show ?thesis by (auto simp: pause_def well_formedA_def)
next
  case Resume
  with assms show ?thesis by (auto simp: resume_def well_formedA_def split: if_splits)
next
  case (Restart rnd)
  with assms(1,2) show ?thesis
    using fresh_food_well_formed[of rnd]
    by (auto simp: restart_def start_def well_formedA_def START_SNAKE_def split: option.splits)
next
  case (Reset rnd)
  with assms(1,2) show ?thesis
    using fresh_food_well_formed[of rnd]
    by (auto simp: reset_click_def well_formedA_def START_SNAKE_def split: option.splits)
next
  case Faster
  with assms show ?thesis by (auto simp: faster_click_def well_formedA_def)
next
  case Slower
  with assms show ?thesis by (auto simp: slower_click_def well_formedA_def)
qed

lemma runA_keeps_well_formed:
  "runA evs s = Some (Inr s') \<Longrightarrow> list_all fair_eventA evs \<Longrightarrow> well_formedA s
    \<Longrightarrow> well_formedA s'"
proof (induction evs arbitrary: s)
  case Nil
  then show ?case by simp
next
  case (Cons e evs)
  from Cons.prems(1) obtain s1 where s1: "stepA e s = Some (Inr s1)"
    and rest: "runA evs s1 = Some (Inr s')"
    by (auto split: option.splits sum.splits)
  from Cons.prems(2) have fair: "fair_eventA e" "list_all fair_eventA evs" by simp_all
  from s1 fair(1) Cons.prems(3) have "well_formedA s1" by (rule stepA_keeps_well_formed)
  with rest fair(2) show ?case by (rule Cons.IH)
qed

lemma initial_stateA_well_formed:
  assumes "initial_stateA rnd = Some (Inr s)" and "unit_interval rnd"
  shows "well_formedA s"
  using assms fresh_food_well_formed[of rnd]
  by (auto simp: initial_stateA_def well_formedA_def START_SNAKE_def split: option.splits)

lemma tick_eats_in_game:
  assumes "initial_stateA rnd0 = Some (Inr s0)" and "unit_interval rnd0"
    and "runA evs s0 = Some (Inr s)" and "list_all fair_eventA evs"
    and "is_runningA s" and "candidateA s = foodA s"
    and "eventually_free BOARD_SIZE rnd (candidateA s # snakeA s)"
  shows "\<exists>f. tick rnd s = Some (Inr (s\<lparr>snakeA := candidateA s # snakeA s,
              scoreA := scoreA s + 1, speedA := max 40 (speedA s - 4), foodA := f\<rparr>))
            \<and> f \<notin> set (candidateA s # snakeA s)"
proof -
  from assms(1,2) have "well_formedA s0" by (rule initial_stateA_well_formed)
  with assms(3,4) have "well_formedA s" by (rule runA_keeps_well_formed)
  with assms(6) have ne: "snakeA s \<noteq> []" and board: "\<not> hits_wall BOARD_SIZE (candidateA s)"
    and free: "candidateA s \<notin> set (snakeA s)"
    by (simp_all add: well_formedA_def)
  show ?thesis by (rule tick_eats[OF assms(5) ne assms(6) board free assms(7)])
qed

subsection \<open>Eating in a game of variant B\<close>

text \<open>The equations that evaluate a run on concrete events.\<close>

lemmas eval_cells = newHead_of_def hits_wall_def some_eq_def draw_def always_def
  first_then_def Let_def

lemmas evalB = moveSnake_def move_to_def handleKeyPress_def turn_def toggleWallMode_def
  wrap_def GRID_SIZE_def generateFood_accept initial_stateB_def INITIAL_SNAKE_def
  INITIAL_DIRECTION_def

text \<open>
  Claim C1 says that after a tick that eats, the new food cell is not a cell of the grown
  snake. Variant A draws it with \<open>randomFood(newSnake)\<close>, and \<open>tick_eats_in_game\<close> above
  shows the claim for every state a game of variant A reaches. Variant B draws it with
  \<open>generateFood\<close>, which tests the candidate against the snake before the tick, so the
  new head is not excluded (\<open>move_to_eats\<close>). Here the game of variant B reaches the cell
  left of the first food; the next tick eats, the random source answers 3/4 twice, which
  is the cell (15, 15) under the new head, and the new food lies in the grown snake.
\<close>

theorem C1_food_under_head:
  "runB to_first_food initial_stateB = Some (Inr before_first_food)
   \<and> statusB before_first_food = Running
   \<and> candidateB before_first_food = foodB before_first_food
   \<and> draw GRID_SIZE (always (3 / 4)) 0 = (15, 15)
   \<and> moveSnake (always (3 / 4)) before_first_food = Some (Inr after_first_food)
   \<and> snakeB after_first_food = candidateB before_first_food # snakeB before_first_food
   \<and> foodB after_first_food \<in> set (snakeB after_first_food)"
  by (simp add: to_first_food_def before_first_food_def after_first_food_def statusB_def
      candidateB_def eval_cells evalB)

section \<open>Two keys between two ticks\<close>

lemmas evalA = tick_def start_def handleKey_def mapA_def BOARD_SIZE_def START_SNAKE_def
  START_DIRECTION_def INITIAL_SPEED_def randomFood_accept initial_stateA_def

text \<open>
  Claim C2 says that no tick applies the exact reverse of the heading the tick before it
  applied. Both key handlers compare a key with the heading the last accepted key left,
  not with the heading the last tick applied. In variant A, after a tick to the right the
  keys ArrowUp and ArrowLeft are both accepted, and the next tick applies (-1, 0): the
  head moves onto the neck and the game is over. In variant B the same keys turn the
  one-cell snake round on the spot.
\<close>

theorem C2_reverse_applied:
  "(let s0 = \<lparr>snakeA = START_SNAKE, directionA = START_DIRECTION, foodA = (0, 0),
               runningA = False, speedA = INITIAL_SPEED, scoreA = 0, gameOverA = False\<rparr>
    in initial_stateA (always 0) = Some (Inr s0)
       \<and> applied_headingsA two_keys_A s0 = [(1, 0), (-1, 0)]
       \<and> reverses_in (applied_headingsA two_keys_A s0)
       \<and> runA two_keys_A s0
           = Some (Inr \<lparr>snakeA = [(10, 10), (9, 10), (8, 10)], directionA = (-1, 0),
                        foodA = (0, 0), runningA = False, speedA = 150, scoreA = 0,
                        gameOverA = True\<rparr>))
   \<and> applied_headingsB two_keys_B initial_stateB = [(1, 0), (-1, 0)]
   \<and> reverses_in (applied_headingsB two_keys_B initial_stateB)
   \<and> runB two_keys_B initial_stateB
       = Some (Inr \<lparr>snakeB = [(10, 10)], directionB = (-1, 0), foodB = (15, 15),
                    gameOverB = False, scoreB = 0, isPaused = False, gameStarted = True,
                    wallMode = Wall\<rparr>)"
  by (simp add: two_keys_A_def two_keys_B_def appliedA_def appliedB_def is_runningA_def
      statusB_def reverse_of_def eval_cells evalA evalB)

section \<open>Pass-through mode\<close>

lemma wrap_mod:
  assumes "-1 \<le> x" and "x \<le> GRID_SIZE" and "-1 \<le> y" and "y \<le> GRID_SIZE"
  shows "wrap (x, y) = (x mod GRID_SIZE, y mod GRID_SIZE)"
  using assms by (simp add: wrap_def GRID_SIZE_def Let_def) presburger

lemma wrap_edges:
  "fst (wrap (-1, y)) = GRID_SIZE - 1" "fst (wrap (GRID_SIZE, y)) = 0"
  "snd (wrap (x, -1)) = GRID_SIZE - 1" "snd (wrap (x, GRID_SIZE)) = 0"
  by (simp_all add: wrap_def GRID_SIZE_def Let_def)

lemma wrap_on_board: "\<not> hits_wall GRID_SIZE (wrap c)"
  by (simp add: wrap_def hits_wall_def GRID_SIZE_def Let_def)

lemma step_near_board:
  assumes "\<not> hits_wall GRID_SIZE h" and "unit_heading d"
  shows "-1 \<le> fst h + fst d \<and> fst h + fst d \<le> GRID_SIZE
       \<and> -1 \<le> snd h + snd d \<and> snd h + snd d \<le> GRID_SIZE"
  using assms by (auto simp: hits_wall_def unit_heading_def)

lemma candidateB_mod:
  assumes "well_formedB s" and "wallMode s = Passthrough"
  shows "candidateB s = ((fst (hd (snakeB s)) + fst (directionB s)) mod GRID_SIZE,
                         (snd (hd (snakeB s)) + snd (directionB s)) mod GRID_SIZE)"
proof -
  from assms(1) obtain h rest where sn: "snakeB s = h # rest"
    by (cases "snakeB s") (auto simp: well_formedB_def)
  with assms(1) have "\<not> hits_wall GRID_SIZE h" "unit_heading (directionB s)"
    by (simp_all add: well_formedB_def)
  from step_near_board[OF this] show ?thesis
    using assms(2) sn by (simp add: candidateB_def newHead_of_def wrap_mod)
qed

lemma moveSnake_idle: "statusB s \<noteq> Running \<Longrightarrow> moveSnake rnd s = Some (Inr s)"
  by (auto simp: moveSnake_def statusB_def split: if_splits)

lemma moveSnake_running:
  assumes "statusB s = Running" and "snakeB s \<noteq> []"
  shows "moveSnake rnd s =
    (if wallMode s = Wall \<and> hits_wall GRID_SIZE (candidateB s) then Some (Inr (s\<lparr>gameOverB := True\<rparr>))
     else move_to rnd s (candidateB s))"
proof -
  obtain h rest where sn: "snakeB s = h # rest"
    using assms(2) by (cases "snakeB s") auto
  from assms(1) have "\<not> gameOverB s" "\<not> isPaused s" "gameStarted s"
    by (auto simp: statusB_def split: if_splits)
  then show ?thesis by (simp add: moveSnake_def candidateB_def sn)
qed

lemma move_to_cases:
  assumes "move_to rnd s c = Some r" and "snakeB s \<noteq> []"
  shows "r = Inr (s\<lparr>gameOverB := True\<rparr>) \<and> c \<in> set (snakeB s)
    \<or> r = Inr (s\<lparr>snakeB := c # butlast (snakeB s)\<rparr>) \<and> c \<notin> set (snakeB s)
    \<or> (\<exists>f. r = Inr (s\<lparr>snakeB := c # snakeB s, scoreB := scoreB s + 10, foodB := f\<rparr>)
          \<and> c \<notin> set (snakeB s) \<and> c = foodB s \<and> f \<notin> set (snakeB s))"
proof (cases "c \<in> set (snakeB s)")
  case True
  with assms show ?thesis by (simp add: move_to_self_collision)
next
  case False
  show ?thesis
  proof (cases "c = foodB s")
    case True
    with False assms obtain f where f: "generateFood (snakeB s) rnd 0 = Some f"
      and r: "r = Inr (s\<lparr>snakeB := c # snakeB s, scoreB := scoreB s + 10, foodB := f\<rparr>)"
      by (auto simp: move_to_def some_eq_iff cell_eq_iff Let_def split: option.splits)
    from f have "f \<notin> set (snakeB s)" by (rule generateFood_sound)
    with r True False show ?thesis by blast
  next
    case nofood: False
    with False assms show ?thesis
      by (auto simp: move_to_def some_eq_iff cell_eq_iff Let_def)
  qed
qed

lemma moveSnake_keeps_well_formed:
  assumes "moveSnake rnd s = Some (Inr s')" and "well_formedB s"
  shows "well_formedB s'"
proof (cases "statusB s = Running")
  case False
  with assms show ?thesis by (simp add: moveSnake_idle)
next
  case True
  from assms(2) have ne: "snakeB s \<noteq> []" by (simp add: well_formedB_def)
  note run = moveSnake_running[OF True ne, of rnd]
  show ?thesis
  proof (cases "wallMode s = Wall \<and> hits_wall GRID_SIZE (candidateB s)")
    case True
    from assms(1) have "s' = s\<lparr>gameOverB := True\<rparr>" unfolding run using True by simp
    with assms(2) show ?thesis by (simp add: well_formedB_def)
  next
    case nowall: False
    have cb: "\<not> hits_wall GRID_SIZE (candidateB s)"
    proof (cases "wallMode s = Wall")
      case True
      with nowall show ?thesis by simp
    next
      case False
      then show ?thesis by (simp add: candidateB_def wrap_on_board)
    qed
    from assms(1) have "move_to rnd s (candidateB s) = Some (Inr s')"
      unfolding run using nowall by simp
    from move_to_cases[OF this ne] show ?thesis
    proof (elim disjE conjE exE)
      assume "Inr s' = Inr (s\<lparr>gameOverB := True\<rparr>)"
      with assms(2) show ?thesis by (auto simp: well_formedB_def)
    next
      assume "Inr s' = Inr (s\<lparr>snakeB := candidateB s # butlast (snakeB s)\<rparr>)"
      moreover have "list_all (\<lambda>c. \<not> hits_wall GRID_SIZE c) (butlast (snakeB s))"
        using assms(2) by (auto simp: well_formedB_def list_all_iff dest: in_set_butlastD)
      ultimately show ?thesis using assms(2) cb by (auto simp: well_formedB_def)
    next
      fix f
      assume "Inr s' = Inr (s\<lparr>snakeB := candidateB s # snakeB s, scoreB := scoreB s + 10,
        foodB := f\<rparr>)"
      with assms(2) cb show ?thesis by (auto simp: well_formedB_def)
    qed
  qed
qed

lemma turn_unit: "unit_heading prev \<Longrightarrow> unit_heading (turn key prev)"
  by (simp add: turn_def unit_heading_def)

lemma stepB_keeps_well_formed:
  assumes "stepB e s = Some (Inr s')" and "well_formedB s"
  shows "well_formedB s'"
proof (cases e)
  case (TickB rnd)
  with assms show ?thesis by (simp add: moveSnake_keeps_well_formed)
next
  case (KeyPress key)
  with assms show ?thesis
    by (auto simp: handleKeyPress_def well_formedB_def turn_unit Let_def split: if_splits)
next
  case ResetGame
  with assms(1) show ?thesis
    by (auto simp: resetGame_def well_formedB_def INITIAL_SNAKE_def INITIAL_DIRECTION_def
        hits_wall_def GRID_SIZE_def unit_heading_def)
next
  case ToggleWallMode
  with assms show ?thesis by (auto simp: toggleWallMode_def well_formedB_def split: if_splits)
qed

lemma runB_keeps_well_formed:
  "runB evs s = Some (Inr s') \<Longrightarrow> well_formedB s \<Longrightarrow> well_formedB s'"
proof (induction evs arbitrary: s)
  case Nil
  then show ?case by simp
next
  case (Cons e evs)
  from Cons.prems(1) obtain s1 where s1: "stepB e s = Some (Inr s1)"
    and rest: "runB evs s1 = Some (Inr s')"
    by (auto split: option.splits sum.splits)
  from s1 Cons.prems(2) have "well_formedB s1" by (rule stepB_keeps_well_formed)
  with rest show ?case by (rule Cons.IH)
qed

lemma initial_stateB_well_formed: "well_formedB initial_stateB"
  by (simp add: well_formedB_def initial_stateB_def INITIAL_SNAKE_def INITIAL_DIRECTION_def
      hits_wall_def GRID_SIZE_def unit_heading_def)

lemma reachable_well_formed:
  "runB evs initial_stateB = Some (Inr s) \<Longrightarrow> well_formedB s"
  using runB_keeps_well_formed initial_stateB_well_formed by blast

lemma passthrough_tick:
  assumes "statusB s = Running" and "snakeB s \<noteq> []" and "wallMode s = Passthrough"
  shows "candidateB s \<in> set (snakeB s) \<longrightarrow> moveSnake rnd s = Some (Inr (s\<lparr>gameOverB := True\<rparr>))"
    and "candidateB s \<notin> set (snakeB s) \<and> moveSnake rnd s = Some r
          \<longrightarrow> (\<exists>s'. r = Inr s' \<and> statusB s' = Running \<and> hd (snakeB s') = candidateB s)"
    and "candidateB s \<notin> set (snakeB s)
          \<and> (candidateB s = foodB s \<longrightarrow> eventually_free GRID_SIZE rnd (snakeB s))
          \<longrightarrow> (\<exists>s'. moveSnake rnd s = Some (Inr s'))"
proof -
  have run: "moveSnake rnd s = move_to rnd s (candidateB s)"
    using assms by (simp add: moveSnake_running)
  show "candidateB s \<in> set (snakeB s) \<longrightarrow> moveSnake rnd s = Some (Inr (s\<lparr>gameOverB := True\<rparr>))"
    by (simp add: run move_to_self_collision)
  show "candidateB s \<notin> set (snakeB s) \<and> moveSnake rnd s = Some r
          \<longrightarrow> (\<exists>s'. r = Inr s' \<and> statusB s' = Running \<and> hd (snakeB s') = candidateB s)"
  proof
    assume a: "candidateB s \<notin> set (snakeB s) \<and> moveSnake rnd s = Some r"
    then have "move_to rnd s (candidateB s) = Some r" by (simp add: run)
    from move_to_cases[OF this assms(2)] a
    consider "r = Inr (s\<lparr>snakeB := candidateB s # butlast (snakeB s)\<rparr>)"
      | f where "r = Inr (s\<lparr>snakeB := candidateB s # snakeB s, scoreB := scoreB s + 10,
          foodB := f\<rparr>)"
      by blast
    then show "\<exists>s'. r = Inr s' \<and> statusB s' = Running \<and> hd (snakeB s') = candidateB s"
    proof cases
      case 1
      with assms(1) show ?thesis by (simp add: statusB_def split: if_splits)
    next
      case 2
      with assms(1) show ?thesis by (simp add: statusB_def split: if_splits)
    qed
  qed
  show "candidateB s \<notin> set (snakeB s)
          \<and> (candidateB s = foodB s \<longrightarrow> eventually_free GRID_SIZE rnd (snakeB s))
          \<longrightarrow> (\<exists>s'. moveSnake rnd s = Some (Inr s'))"
  proof
    assume a: "candidateB s \<notin> set (snakeB s)
          \<and> (candidateB s = foodB s \<longrightarrow> eventually_free GRID_SIZE rnd (snakeB s))"
    show "\<exists>s'. moveSnake rnd s = Some (Inr s')"
    proof (cases "candidateB s = foodB s")
      case True
      with a move_to_eats[of "candidateB s" s rnd] show ?thesis by (auto simp: run)
    next
      case False
      with a assms(2) show ?thesis by (simp add: run move_to_plain)
    qed
  qed
qed


lemma passthrough_game_over:
  assumes "statusB s = Running" and "wallMode s = Passthrough"
    and "moveSnake rnd s = Some (Inr s')" and "statusB s' = GameOver"
  shows "candidateB s \<in> set (snakeB s)"
proof (rule ccontr)
  assume free: "candidateB s \<notin> set (snakeB s)"
  have ne: "snakeB s \<noteq> []"
  proof
    assume "snakeB s = []"
    with assms(1) have "moveSnake rnd s = Some (Inl TypeError)"
      by (auto simp: moveSnake_def statusB_def split: if_splits)
    with assms(3) show False by simp
  qed
  from passthrough_tick(2)[OF assms(1) ne assms(2), of rnd "Inr s'"] free assms(3)
  have "statusB s' = Running" by simp
  with assms(4) show False by simp
qed

text \<open>
  Claim C6. In pass-through mode each axis of the candidate head is wrapped on its own:
  a coordinate -1 becomes 19 and a coordinate 20 becomes 0, whatever the other coordinate
  is, and for coordinates from -1 to 20 this is the value modulo 20. Every state a game
  of variant B reaches has its snake on the board and one of the four headings, and in
  such a state the candidate head is the head plus the heading modulo 20 on each axis, a
  cell of the board. Crossing the edge never ends the game: a tick taken while the status
  is Running returns a state with status GameOver only when the wrapped candidate is a
  cell of the current snake, which is the self-collision of line 339; when it is not,
  whatever the tick returns is a state with status Running whose head is the wrapped
  candidate, and the tick returns as soon as the food generator does.
\<close>

theorem C6_wrap_around:
  "(-1 \<le> x \<and> x \<le> GRID_SIZE \<and> -1 \<le> y \<and> y \<le> GRID_SIZE
        \<longrightarrow> wrap (x, y) = (x mod GRID_SIZE, y mod GRID_SIZE))
   \<and> fst (wrap (-1, y)) = GRID_SIZE - 1 \<and> fst (wrap (GRID_SIZE, y)) = 0
   \<and> snd (wrap (x, -1)) = GRID_SIZE - 1 \<and> snd (wrap (x, GRID_SIZE)) = 0
   \<and> (runB evs initial_stateB = Some (Inr s) \<longrightarrow> well_formedB s)
   \<and> (well_formedB s \<and> wallMode s = Passthrough
        \<longrightarrow> candidateB s = ((fst (hd (snakeB s)) + fst (directionB s)) mod GRID_SIZE,
                             (snd (hd (snakeB s)) + snd (directionB s)) mod GRID_SIZE)
          \<and> \<not> hits_wall GRID_SIZE (candidateB s))
   \<and> (statusB s = Running \<and> wallMode s = Passthrough
        \<and> moveSnake rnd s = Some (Inr s') \<and> statusB s' = GameOver
        \<longrightarrow> candidateB s \<in> set (snakeB s))
   \<and> (statusB s = Running \<and> wallMode s = Passthrough \<and> snakeB s \<noteq> []
        \<and> candidateB s \<notin> set (snakeB s)
        \<longrightarrow> (moveSnake rnd s = Some r
               \<longrightarrow> (\<exists>s''. r = Inr s'' \<and> statusB s'' = Running
                      \<and> hd (snakeB s'') = candidateB s))
          \<and> ((candidateB s = foodB s \<longrightarrow> eventually_free GRID_SIZE rnd (snakeB s))
               \<longrightarrow> (\<exists>s''. moveSnake rnd s = Some (Inr s''))))"
proof (intro conjI impI)
  assume "-1 \<le> x \<and> x \<le> GRID_SIZE \<and> -1 \<le> y \<and> y \<le> GRID_SIZE"
  then show "wrap (x, y) = (x mod GRID_SIZE, y mod GRID_SIZE)" by (simp add: wrap_mod)
next
  show "fst (wrap (-1, y)) = GRID_SIZE - 1" "fst (wrap (GRID_SIZE, y)) = 0"
    "snd (wrap (x, -1)) = GRID_SIZE - 1" "snd (wrap (x, GRID_SIZE)) = 0"
    by (rule wrap_edges)+
next
  assume "runB evs initial_stateB = Some (Inr s)"
  then show "well_formedB s" by (rule reachable_well_formed)
next
  assume a: "well_formedB s \<and> wallMode s = Passthrough"
  then show "candidateB s = ((fst (hd (snakeB s)) + fst (directionB s)) mod GRID_SIZE,
                             (snd (hd (snakeB s)) + snd (directionB s)) mod GRID_SIZE)"
    by (simp add: candidateB_mod)
  from a show "\<not> hits_wall GRID_SIZE (candidateB s)"
    by (simp add: candidateB_def wrap_on_board)
next
  assume "statusB s = Running \<and> wallMode s = Passthrough
        \<and> moveSnake rnd s = Some (Inr s') \<and> statusB s' = GameOver"
  then show "candidateB s \<in> set (snakeB s)"
    using passthrough_game_over by blast
next
  assume a: "statusB s = Running \<and> wallMode s = Passthrough \<and> snakeB s \<noteq> []
        \<and> candidateB s \<notin> set (snakeB s)"
  then have st: "statusB s = Running" and pt: "wallMode s = Passthrough"
    and ne: "snakeB s \<noteq> []" and free: "candidateB s \<notin> set (snakeB s)"
    by simp_all
  {
    assume "moveSnake rnd s = Some r"
    with passthrough_tick(2)[OF st ne pt, of rnd r] free
    show "\<exists>s''. r = Inr s'' \<and> statusB s'' = Running \<and> hd (snakeB s'') = candidateB s"
      by simp
  }
  {
    assume "candidateB s = foodB s \<longrightarrow> eventually_free GRID_SIZE rnd (snakeB s)"
    with passthrough_tick(3)[OF st ne pt, of rnd] free
    show "\<exists>s''. moveSnake rnd s = Some (Inr s'')" by simp
  }
qed

text \<open>A game that runs to the right edge and crosses it onto the free cell (0, 15), and
  the same game five ticks later, where the wrapped candidate is the snake's own tail and
  the tick ends the game by self-collision.\<close>

theorem C6_witness:
  "runB to_the_edge initial_stateB = Some (Inr at_right_edge)
   \<and> well_formedB at_right_edge
   \<and> statusB at_right_edge = Running \<and> wallMode at_right_edge = Passthrough
   \<and> snakeB at_right_edge \<noteq> []
   \<and> newHead_of (hd (snakeB at_right_edge)) (directionB at_right_edge) = (20, 15)
   \<and> hits_wall GRID_SIZE (20, 15)
   \<and> candidateB at_right_edge = (0, 15)
   \<and> candidateB at_right_edge \<notin> set (snakeB at_right_edge)
   \<and> candidateB at_right_edge \<noteq> foodB at_right_edge
   \<and> moveSnake (always 0) at_right_edge
       = Some (Inr (at_right_edge\<lparr>snakeB := [(0, 15), (19, 15), (18, 15), (17, 15)]\<rparr>))
   \<and> statusB (at_right_edge\<lparr>snakeB := [(0, 15), (19, 15), (18, 15), (17, 15)]\<rparr>) = Running
   \<and> runB round_the_edge initial_stateB = Some (Inr tail_across_edge)
   \<and> statusB tail_across_edge = Running \<and> wallMode tail_across_edge = Passthrough
   \<and> moveSnake (always 0) tail_across_edge = Some (Inr (tail_across_edge\<lparr>gameOverB := True\<rparr>))
   \<and> statusB (tail_across_edge\<lparr>gameOverB := True\<rparr>) = GameOver
   \<and> candidateB tail_across_edge = last (snakeB tail_across_edge)
   \<and> candidateB tail_across_edge \<in> set (snakeB tail_across_edge)
   \<and> wrap (-1, 20) = (19, 0) \<and> wrap (20, -1) = (0, 19)"
  using
    C6_wrap_around[of "-1" 20 to_the_edge at_right_edge "always 0" _
      "Inr (at_right_edge\<lparr>snakeB := [(0, 15), (19, 15), (18, 15), (17, 15)]\<rparr>)"]
    C6_wrap_around[of 20 "-1" round_the_edge tail_across_edge "always 0"
      "tail_across_edge\<lparr>gameOverB := True\<rparr>"]
  by (simp add: round_the_edge_def to_the_edge_def to_first_food_def tail_across_edge_def
      at_right_edge_def statusB_def candidateB_def well_formedB_def unit_heading_def
      eval_cells evalB)

end
